theory Spec2Isabelle
  imports Complex_Main "HOL-Library.Log_Nat"
begin

section \<open>Markers and the state of the map screen\<close>

text \<open>
  The map screen is the React component of \<^verbatim>\<open>src/screens/DocsScreen.tsx\<close>. Its
  \<^verbatim>\<open>useState\<close> cells and \<^verbatim>\<open>useRef\<close> cells are the fields of one record; every
  callback is a function from the state to the new state, together with the list of the
  effects it starts (network requests, calls of the native module, scripts injected into
  the web view). An \<^verbatim>\<open>async\<close> callback is cut at each \<^verbatim>\<open>await\<close>: the part before
  the \<^verbatim>\<open>await\<close> is one function, the part after it is another one that takes the
  settled value of the awaited promise. The event loop runs each part without
  interruption, in any order of arrival.

  A finite JavaScript number is the rational it denotes (type \<^typ>\<open>rat\<close>); the
  rounding of sums and differences to doubles is written out in the section on number
  arithmetic. \<^verbatim>\<open>showNotice\<close> sets the notice; the timer that clears it is a later
  event and is not part of these functions. Message texts that the source writes in
  Chinese are ASCII glosses here.
\<close>

datatype MarkerCategory =
  accessible_toilet | friendly_clinic | conversion_therapy | self_definition

record MapMarker =
  marker_id :: rat
  lat :: rat
  lng :: rat
  category :: MarkerCategory
  title :: string
  description :: string
  isPublic :: bool
  isActive :: bool
  openTimeStart :: "string option"
  openTimeEnd :: "string option"
  markImage :: "string option"
  username :: string
  userPublicId :: "string option"

record LatLngZoom =
  latitude :: rat
  longitude :: rat
  zoom :: rat

record ViewportBounds =
  minLat :: rat
  maxLat :: rat
  minLng :: rat
  maxLng :: rat
  wrapsAntimeridian :: bool
  wholeWorld :: bool

record DraftMarker =
  draft_lat :: rat
  draft_lng :: rat
  draft_category :: MarkerCategory
  draft_title :: string
  draft_description :: string
  draft_isPublic :: bool
  openStartHour :: string
  openStartMinute :: string
  openEndHour :: string
  openEndMinute :: string

record LocalUploadImage =
  uri :: string
  mime_type :: string
  file_name :: string

text \<open>A value that reaches a \<^verbatim>\<open>catch\<close>: an \<^verbatim>\<open>Error\<close> object with its message, or
  any other value. Either comes with its \<^verbatim>\<open>code\<close> property when the value is an object
  that has one and the property is a string.\<close>

datatype thrown = ErrorObj string "string option" | NonError "string option"

text \<open>The settled value of an awaited promise.\<close>

datatype 'a settled = Fulfilled 'a | Rejected thrown

record MapScreen =
  loading :: bool
  error :: string
  notice :: string
  timeFixHint :: string
  markers :: "MapMarker list"
  selectedMarkerId :: "rat option"
  draft :: "DraftMarker option"
  categorySelectOpen :: bool
  savingDraft :: bool
  draftImageFile :: "LocalUploadImage option"
  draftImageBusy :: bool
  draftImageHint :: string
  draftImageError :: string
  editingId :: "rat option"
  canDeleteDraft :: bool
  deleteConfirmOpen :: bool
  locationPermissionGranted :: bool
  userLocation :: "(rat \<times> rat) option"
  mapViewport :: LatLngZoom
  mapBounds :: "ViewportBounds option"
  nativeLocateInFlightRef :: bool
  nativeFallbackCooldownRef :: int
  markerQuerySeqRef :: nat
  hasLoadedMarkersRef :: bool

text \<open>One call of \<^verbatim>\<open>fetchViewportSegment\<close>: the query string of
  \<^verbatim>\<open>GET /api/markers/viewport\<close>.\<close>

record ViewportQuery =
  q_minLat :: rat
  q_maxLat :: rat
  q_minLng :: rat
  q_maxLng :: rat
  q_categories :: "MarkerCategory list"

datatype http_request =
  GetViewport ViewportQuery
  | PatchMarker rat
  | PostMarker
  | PostMarkerImage rat LocalUploadImage
  | DeleteMarker rat

datatype effect =
  Http http_request
  | GetCurrentPosition int int
  | InjectSetView rat rat rat

datatype platform = android | ios | other_platform

section \<open>The marker query coordinator: \<^verbatim>\<open>loadMarkersInViewport\<close>\<close>

definition fetchViewportSegment ::
  "ViewportBounds \<Rightarrow> MarkerCategory list \<Rightarrow> rat \<Rightarrow> rat \<Rightarrow> ViewportQuery" where
  "fetchViewportSegment bounds categories lo hi =
     \<lparr>q_minLat = minLat bounds, q_maxLat = maxLat bounds,
      q_minLng = lo, q_maxLng = hi, q_categories = categories\<rparr>"

text \<open>The expression the \<^verbatim>\<open>try\<close> block awaits: one segment, or \<^verbatim>\<open>Promise.all\<close>
  of two.\<close>

datatype awaited = AwaitOne ViewportQuery | AwaitTwo ViewportQuery ViewportQuery

definition viewport_segments :: "ViewportBounds \<Rightarrow> MarkerCategory list \<Rightarrow> awaited" where
  "viewport_segments bounds categories =
     (if wholeWorld bounds then
        AwaitOne (fetchViewportSegment bounds categories (-180) 180)
      else if \<not> wrapsAntimeridian bounds \<and> minLng bounds \<le> maxLng bounds then
        AwaitOne (fetchViewportSegment bounds categories (minLng bounds) (maxLng bounds))
      else
        AwaitTwo (fetchViewportSegment bounds categories (minLng bounds) 180)
                 (fetchViewportSegment bounds categories (-180) (maxLng bounds)))"

fun requests_of :: "awaited \<Rightarrow> effect list" where
  "requests_of (AwaitOne q) = [Http (GetViewport q)]"
| "requests_of (AwaitTwo q1 q2) = [Http (GetViewport q1), Http (GetViewport q2)]"

text \<open>What a call of \<^verbatim>\<open>loadMarkersInViewport\<close> has done when it first gives up
  control: it has returned (the empty-category path), or it waits for its segments under
  the sequence number it captured.\<close>

datatype load_call = Returned | Awaiting nat awaited

fun load_effects :: "load_call \<Rightarrow> effect list" where
  "load_effects Returned = []"
| "load_effects (Awaiting seq a) = requests_of a"

definition loadMarkersInViewport ::
  "ViewportBounds \<Rightarrow> MarkerCategory list \<Rightarrow> MapScreen \<Rightarrow> load_call \<times> MapScreen" where
  "loadMarkersInViewport bounds categories s =
     (if length categories = 0 then
        (Returned,
         (let s1 = s\<lparr>markers := [], error := []\<rparr>
          in if \<not> hasLoadedMarkersRef s1
             then s1\<lparr>hasLoadedMarkersRef := True, loading := False\<rparr>
             else s1))
      else
        (let seq = markerQuerySeqRef s + 1;
             s1 = s\<lparr>markerQuerySeqRef := seq\<rparr>;
             isFirstLoad = \<not> hasLoadedMarkersRef s1;
             s2 = (if isFirstLoad then s1\<lparr>loading := True\<rparr> else s1)
         in (Awaiting seq (viewport_segments bounds categories), s2)))"

text \<open>\<^verbatim>\<open>Map.prototype.set\<close>: an existing key keeps its place and takes the new value,
  a new key goes to the end. \<^verbatim>\<open>mergedById\<close> is the loop over the concatenated lists,
  \<^verbatim>\<open>Array.from(mergedById.values())\<close> its values in insertion order.\<close>

fun map_set :: "rat \<Rightarrow> MapMarker \<Rightarrow> (rat \<times> MapMarker) list \<Rightarrow> (rat \<times> MapMarker) list" where
  "map_set k v [] = [(k, v)]"
| "map_set k v ((k', v') # es) =
     (if k' = k then (k, v) # es else (k', v') # map_set k v es)"

definition mergedById :: "MapMarker list \<Rightarrow> (rat \<times> MapMarker) list" where
  "mergedById ms = foldl (\<lambda>m marker. map_set (marker_id marker) marker m) [] ms"

definition map_values :: "(rat \<times> MapMarker) list \<Rightarrow> MapMarker list" where
  "map_values m = map snd m"

text \<open>The value of \<^verbatim>\<open>mergedMarkers\<close> when the awaited segments are fulfilled. The
  lists are the results of \<^verbatim>\<open>normalizeMarkers\<close> on the payloads; a payload on which
  \<^verbatim>\<open>requestJson\<close> or \<^verbatim>\<open>normalizeMarkers\<close> throws is a \<^const>\<open>Rejected\<close> value.\<close>

datatype segments = OneSegment "MapMarker list" | TwoSegments "MapMarker list" "MapMarker list"

fun mergedMarkers :: "segments \<Rightarrow> MapMarker list" where
  "mergedMarkers (OneSegment payload) = payload"
| "mergedMarkers (TwoSegments leftPayload rightPayload) =
     map_values (mergedById (leftPayload @ rightPayload))"

definition MSG_LOAD_FAILED :: string where
  "MSG_LOAD_FAILED = ''load markers failed''"

fun load_error_message :: "thrown \<Rightarrow> string" where
  "load_error_message (ErrorObj message code) = message"
| "load_error_message (NonError code) = MSG_LOAD_FAILED"

definition load_finally :: "nat \<Rightarrow> MapScreen \<Rightarrow> MapScreen" where
  "load_finally seq s =
     (if seq = markerQuerySeqRef s \<and> \<not> hasLoadedMarkersRef s
      then s\<lparr>hasLoadedMarkersRef := True, loading := False\<rparr>
      else s)"

text \<open>The rest of \<^verbatim>\<open>loadMarkersInViewport\<close> after the \<^verbatim>\<open>await\<close>, for the call that
  captured \<open>seq\<close>: the end of the \<^verbatim>\<open>try\<close> block or the \<^verbatim>\<open>catch\<close> block, then the
  \<^verbatim>\<open>finally\<close> block.\<close>

fun load_settled :: "nat \<Rightarrow> segments settled \<Rightarrow> MapScreen \<Rightarrow> MapScreen" where
  "load_settled seq (Fulfilled payloads) s =
     load_finally seq
       (if seq \<noteq> markerQuerySeqRef s then s
        else s\<lparr>markers := mergedMarkers payloads, error := []\<rparr>)"
| "load_settled seq (Rejected e) s =
     load_finally seq
       (if seq \<noteq> markerQuerySeqRef s then s
        else s\<lparr>error := load_error_message e\<rparr>)"

section \<open>JavaScript number arithmetic\<close>

text \<open>
  A JavaScript number is an IEEE 754 double. \<^verbatim>\<open>Number(x)\<close> of a message field is a
  finite double, an infinity or NaN. Sums and differences are rounded to the nearest
  double, ties to the even significand; the remainder \<^verbatim>\<open>%\<close>, \<^verbatim>\<open>Math.max\<close>,
  \<^verbatim>\<open>Math.min\<close> and \<^verbatim>\<open>Math.abs\<close> are exact. A rounded result beyond the largest
  finite double is an infinity. A sum or difference of two doubles that falls below the
  normal range is a multiple of the smallest subnormal and so is exact; rounding to 53
  significant bits with no lower bound on the exponent therefore gives the result of the
  double operation on all operands that are doubles. The functions below are defined on
  all rationals, the doubles among them.
\<close>

datatype number = Finite rat | PosInfinity | NegInfinity | NaN

fun Number_isFinite :: "number \<Rightarrow> bool" where
  "Number_isFinite (Finite x) = True"
| "Number_isFinite PosInfinity = False"
| "Number_isFinite NegInfinity = False"
| "Number_isFinite NaN = False"

text \<open>The binary exponent of a non-zero rational: \<open>2 powi bexp x \<le> \<bar>x\<bar> < 2 powi (bexp x + 1)\<close>.\<close>

definition bexp :: "rat \<Rightarrow> int" where
  "bexp x = (if 1 \<le> \<bar>x\<bar> then bitlen \<lfloor>\<bar>x\<bar>\<rfloor> - 1 else - bitlen (\<lceil>1 / \<bar>x\<bar>\<rceil> - 1))"

definition round_half_even :: "rat \<Rightarrow> int" where
  "round_half_even t =
     (let f = \<lfloor>t\<rfloor>; d = t - of_int f
      in if d < 1 / 2 then f else if 1 / 2 < d then f + 1
         else if even f then f else f + 1)"

text \<open>Rounding to 53 significant bits.\<close>

definition round53 :: "rat \<Rightarrow> rat" where
  "round53 x = (let q = 2 powi (bexp x - 52) in of_int (round_half_even (x / q)) * q)"

definition MAX_VALUE :: rat where
  "MAX_VALUE = (2 ^ 53 - 1) * 2 ^ 971"

definition to_number :: "rat \<Rightarrow> number" where
  "to_number x =
     (if \<bar>x\<bar> \<le> MAX_VALUE then Finite x else if 0 < x then PosInfinity else NegInfinity)"

text \<open>\<^verbatim>\<open>a + b\<close> and \<^verbatim>\<open>a - b\<close> on finite numbers of moderate size, where the
  rounded result is finite.\<close>

definition js_add :: "rat \<Rightarrow> rat \<Rightarrow> rat" where
  "js_add a b = round53 (a + b)"

definition js_sub :: "rat \<Rightarrow> rat \<Rightarrow> rat" where
  "js_sub a b = round53 (a - b)"

text \<open>\<^verbatim>\<open>a - b\<close> on any two finite numbers.\<close>

definition js_sub_number :: "rat \<Rightarrow> rat \<Rightarrow> number" where
  "js_sub_number a b = to_number (round53 (a - b))"

definition truncate_rat :: "rat \<Rightarrow> int" where
  "truncate_rat t = (if 0 \<le> t then \<lfloor>t\<rfloor> else \<lceil>t\<rceil>)"

text \<open>\<^verbatim>\<open>a % b\<close> for finite \<open>a\<close> and non-zero finite \<open>b\<close>: the remainder of the
  truncated division, with the sign of \<open>a\<close>.\<close>

definition js_mod :: "rat \<Rightarrow> rat \<Rightarrow> rat" where
  "js_mod a b = a - b * of_int (truncate_rat (a / b))"

fun Math_abs :: "number \<Rightarrow> number" where
  "Math_abs (Finite x) = Finite \<bar>x\<bar>"
| "Math_abs PosInfinity = PosInfinity"
| "Math_abs NegInfinity = PosInfinity"
| "Math_abs NaN = NaN"

text \<open>\<^verbatim>\<open>x >= c\<close> for a finite constant \<open>c\<close>.\<close>

fun js_ge :: "number \<Rightarrow> rat \<Rightarrow> bool" where
  "js_ge (Finite x) c = (c \<le> x)"
| "js_ge PosInfinity c = True"
| "js_ge NegInfinity c = False"
| "js_ge NaN c = False"

text \<open>The literal \<^verbatim>\<open>359.999\<close> is the double nearest to the decimal.\<close>

definition LNG_SPAN_WHOLE_WORLD :: rat where
  "LNG_SPAN_WHOLE_WORLD = round53 (359999 / 1000)"

section \<open>Latitude, longitude and the stored camera\<close>

definition clampLat :: "rat \<Rightarrow> rat" where
  "clampLat v = max (-90) (min 90 v)"

text \<open>Every caller passes a finite number; no intermediate result leaves the finite
  range.\<close>

definition normalizeLng :: "rat \<Rightarrow> rat" where
  "normalizeLng v =
     (let normalized = js_sub (js_mod (js_add (js_mod (js_add v 180) 360) 360) 360) 180
      in max (-180) (min 180 normalized))"

text \<open>The same formula in exact arithmetic, as a mathematical reference.\<close>

definition normalizeLng_exact :: "rat \<Rightarrow> rat" where
  "normalizeLng_exact v =
     (let normalized = js_mod (js_mod (v + 180) 360 + 360) 360 - 180
      in max (-180) (min 180 normalized))"

text \<open>What \<^verbatim>\<open>parseStoredViewport\<close> reads: nothing stored, a text that
  \<^verbatim>\<open>JSON.parse\<close> rejects or whose value has no properties, or a value with
  \<^verbatim>\<open>Number(parsed.latitude)\<close>, \<^verbatim>\<open>Number(parsed.longitude)\<close> and
  \<^verbatim>\<open>Number(parsed.zoom)\<close>.\<close>

datatype stored_viewport = NothingStored | Unparsable | Parsed number number number

fun parseStoredViewport :: "stored_viewport \<Rightarrow> LatLngZoom option" where
  "parseStoredViewport NothingStored = None"
| "parseStoredViewport Unparsable = None"
| "parseStoredViewport (Parsed (Finite la) (Finite lo) z) =
     Some \<lparr>latitude = clampLat la, longitude = normalizeLng lo,
           zoom = (case z of Finite zm \<Rightarrow> max 3 (min 20 zm) | _ \<Rightarrow> 11)\<rparr>"
| "parseStoredViewport (Parsed la lo z) = None"

text \<open>The restore effect at startup, after \<^verbatim>\<open>AsyncStorage.getItem\<close>.\<close>

definition restore_viewport :: "stored_viewport \<Rightarrow> MapScreen \<Rightarrow> MapScreen" where
  "restore_viewport raw s =
     (case parseStoredViewport raw of
        Some savedViewport \<Rightarrow> s\<lparr>mapViewport := savedViewport\<rparr>
      | None \<Rightarrow> s)"

text \<open>The payload the debounced persistence effect writes.\<close>

definition persisted_viewport :: "MapScreen \<Rightarrow> LatLngZoom" where
  "persisted_viewport s =
     \<lparr>latitude = clampLat (latitude (mapViewport s)),
      longitude = normalizeLng (longitude (mapViewport s)),
      zoom = max 3 (min 20 (zoom (mapViewport s)))\<rparr>"

definition camera_invariant :: "LatLngZoom \<Rightarrow> bool" where
  "camera_invariant c =
     (-90 \<le> latitude c \<and> latitude c \<le> 90 \<and> -180 \<le> longitude c \<and> longitude c < 180
      \<and> 3 \<le> zoom c \<and> zoom c \<le> 20)"

section \<open>The initial state\<close>

text \<open>The literals \<^verbatim>\<open>39.9042\<close> and \<^verbatim>\<open>116.4074\<close> are the doubles nearest to the
  decimals.\<close>

definition INITIAL_VIEW :: LatLngZoom where
  "INITIAL_VIEW =
     \<lparr>latitude = round53 (399042 / 10000), longitude = round53 (1164074 / 10000), zoom = 11\<rparr>"

definition initial_screen :: "platform \<Rightarrow> MapScreen" where
  "initial_screen os =
     \<lparr>loading = True, error = [], notice = [], timeFixHint = [], markers = [],
      selectedMarkerId = None, draft = None, categorySelectOpen = False,
      savingDraft = False, draftImageFile = None, draftImageBusy = False,
      draftImageHint = [], draftImageError = [], editingId = None,
      canDeleteDraft = True, deleteConfirmOpen = False,
      locationPermissionGranted = (os \<noteq> android), userLocation = None,
      mapViewport = INITIAL_VIEW, mapBounds = None,
      nativeLocateInFlightRef = False, nativeFallbackCooldownRef = 0,
      markerQuerySeqRef = 0, hasLoadedMarkersRef = False\<rparr>"

section \<open>The \<^verbatim>\<open>moveend\<close> branch of \<^verbatim>\<open>handleWebMessage\<close>\<close>

text \<open>The fields are the values of \<^verbatim>\<open>Number(msg.latitude)\<close> and so on.\<close>

record moveend_message =
  msg_latitude :: number
  msg_longitude :: number
  msg_zoom :: number
  msg_south :: number
  msg_north :: number
  msg_west :: number
  msg_east :: number

fun moveend_viewport :: "number \<Rightarrow> number \<Rightarrow> number \<Rightarrow> MapScreen \<Rightarrow> MapScreen" where
  "moveend_viewport (Finite la) (Finite lg) (Finite zm) s =
     s\<lparr>mapViewport := \<lparr>latitude = la, longitude = normalizeLng lg, zoom = zm\<rparr>\<rparr>"
| "moveend_viewport la lg zm s = s"

definition compute_bounds :: "rat \<Rightarrow> rat \<Rightarrow> rat \<Rightarrow> rat \<Rightarrow> ViewportBounds" where
  "compute_bounds south north west east =
     (let minLat' = clampLat (min south north);
          maxLat' = clampLat (max south north);
          lngSpan = Math_abs (js_sub_number east west)
      in if Number_isFinite lngSpan \<and> js_ge lngSpan LNG_SPAN_WHOLE_WORLD then
           \<lparr>minLat = minLat', maxLat = maxLat', minLng = -180, maxLng = 180,
            wrapsAntimeridian = False, wholeWorld = True\<rparr>
         else
           (let minLng' = normalizeLng west;
                maxLng' = normalizeLng east;
                wraps = (minLng' > maxLng')
            in \<lparr>minLat = minLat', maxLat = maxLat', minLng = minLng', maxLng = maxLng',
                wrapsAntimeridian = wraps, wholeWorld = False\<rparr>))"

fun moveend_bounds :: "number \<Rightarrow> number \<Rightarrow> number \<Rightarrow> number \<Rightarrow> MapScreen \<Rightarrow> MapScreen" where
  "moveend_bounds (Finite south) (Finite north) (Finite west) (Finite east) s =
     s\<lparr>mapBounds := Some (compute_bounds south north west east)\<rparr>"
| "moveend_bounds south north west east s = s"

definition handle_moveend :: "moveend_message \<Rightarrow> MapScreen \<Rightarrow> MapScreen" where
  "handle_moveend msg s =
     moveend_bounds (msg_south msg) (msg_north msg) (msg_west msg) (msg_east msg)
       (moveend_viewport (msg_latitude msg) (msg_longitude msg) (msg_zoom msg) s)"

section \<open>The native location request\<close>

definition showNotice :: "string \<Rightarrow> MapScreen \<Rightarrow> MapScreen" where
  "showNotice text s = s\<lparr>notice := text\<rparr>"

text \<open>The payload of \<^verbatim>\<open>getCurrentPosition\<close>: \<^verbatim>\<open>Number(payload?.latitude)\<close>,
  \<^verbatim>\<open>Number(payload?.longitude)\<close>, and the provider when it is a string.\<close>

record NativeLocationPayload =
  payload_latitude :: number
  payload_longitude :: number
  provider :: "string option"

definition supportsNativeLocation :: "platform \<Rightarrow> bool" where
  "supportsNativeLocation os = (os = android \<or> os = ios)"

text \<open>What a call of \<^verbatim>\<open>requestNativeCurrentLocation\<close> has done when it first gives
  up control: it has returned a boolean, or it waits for \<^verbatim>\<open>getCurrentPosition\<close>.\<close>

datatype native_call = NativeReturned bool | NativeAwaiting

fun native_effects :: "native_call \<Rightarrow> effect list" where
  "native_effects (NativeReturned ok) = []"
| "native_effects NativeAwaiting = [GetCurrentPosition 8000 60000]"

text \<open>\<open>module_present\<close>: \<^verbatim>\<open>nativeLocationModule\<close> is not null and has a function
  \<^verbatim>\<open>getCurrentPosition\<close>.\<close>

definition requestNativeCurrentLocation ::
  "platform \<Rightarrow> bool \<Rightarrow> MapScreen \<Rightarrow> native_call \<times> MapScreen" where
  "requestNativeCurrentLocation os module_present s =
     (if \<not> supportsNativeLocation os then (NativeReturned False, s)
      else if \<not> locationPermissionGranted s then (NativeReturned False, s)
      else if \<not> module_present then (NativeReturned False, s)
      else if nativeLocateInFlightRef s then (NativeReturned False, s)
      else (NativeAwaiting, s\<lparr>nativeLocateInFlightRef := True\<rparr>))"

definition is_js_space :: "char \<Rightarrow> bool" where
  "is_js_space c = (c \<in> set [CHR 0x20, CHR 0x09, CHR 0x0A, CHR 0x0B, CHR 0x0C, CHR 0x0D])"

definition is_blank :: "string \<Rightarrow> bool" where
  "is_blank text = (filter (\<lambda>c. \<not> is_js_space c) text = [])"

definition MSG_NATIVE_INVALID :: string where
  "MSG_NATIVE_INVALID = ''native location returned invalid coordinates''"

definition MSG_NATIVE_USED :: "string \<Rightarrow> string" where
  "MSG_NATIVE_USED provider_name = ''native location used ('' @ provider_name @ '')''"

definition MSG_NATIVE_FAILED :: "string \<Rightarrow> string" where
  "MSG_NATIVE_FAILED message = ''native location failed: '' @ message"

definition MSG_LOCATE_RETRY :: string where
  "MSG_LOCATE_RETRY = ''location failed, please retry later''"

fun native_code :: "thrown \<Rightarrow> string" where
  "native_code (ErrorObj message (Some code)) = code"
| "native_code (ErrorObj message None) = []"
| "native_code (NonError (Some code)) = code"
| "native_code (NonError None) = []"

fun native_failure_message :: "thrown \<Rightarrow> string" where
  "native_failure_message (ErrorObj message code) =
     (if message \<noteq> [] then message else MSG_LOCATE_RETRY)"
| "native_failure_message (NonError code) = MSG_LOCATE_RETRY"

text \<open>The \<^verbatim>\<open>catch\<close> block of \<^verbatim>\<open>requestNativeCurrentLocation\<close>.\<close>

definition native_catch :: "bool \<Rightarrow> thrown \<Rightarrow> MapScreen \<Rightarrow> MapScreen" where
  "native_catch silent err s =
     (let s1 = (if native_code err = ''LOCATION_PERMISSION_DENIED''
                then s\<lparr>locationPermissionGranted := False\<rparr> else s)
      in if \<not> silent then showNotice (MSG_NATIVE_FAILED (native_failure_message err)) s1
         else s1)"

text \<open>The \<^verbatim>\<open>try\<close> block after the \<^verbatim>\<open>await\<close>, on a fulfilled payload.\<close>

fun native_try ::
  "bool \<Rightarrow> bool \<Rightarrow> NativeLocationPayload \<Rightarrow> number \<Rightarrow> number \<Rightarrow> MapScreen
     \<Rightarrow> bool \<times> effect list \<times> MapScreen" where
  "native_try recenter silent payload (Finite la) (Finite lo) s =
     (let s1 = s\<lparr>userLocation := Some (la, lo)\<rparr>;
          inject = (if recenter then [InjectSetView la lo 15] else []);
          provider_name =
            (case provider payload of
               Some p \<Rightarrow> if \<not> is_blank p then p else ''native''
             | None \<Rightarrow> ''native'')
      in (True, inject,
          if \<not> silent then showNotice (MSG_NATIVE_USED provider_name) s1 else s1))"
| "native_try recenter silent payload la lo s =
     (False, [], native_catch silent (ErrorObj MSG_NATIVE_INVALID None) s)"

text \<open>The rest of \<^verbatim>\<open>requestNativeCurrentLocation\<close> after the \<^verbatim>\<open>await\<close>: the value
  the promise resolves to, the scripts injected, and the state after the \<^verbatim>\<open>finally\<close>
  block.\<close>

definition native_settled ::
  "bool \<Rightarrow> bool \<Rightarrow> NativeLocationPayload settled \<Rightarrow> MapScreen
     \<Rightarrow> bool \<times> effect list \<times> MapScreen" where
  "native_settled recenter silent r s =
     (let (ok, effects, s1) =
        (case r of
           Fulfilled payload \<Rightarrow>
             native_try recenter silent payload
               (payload_latitude payload) (payload_longitude payload) s
         | Rejected err \<Rightarrow> (False, [], native_catch silent err s))
      in (ok, effects, s1\<lparr>nativeLocateInFlightRef := False\<rparr>))"

section \<open>The \<^verbatim>\<open>geoError\<close> branch of \<^verbatim>\<open>handleWebMessage\<close>\<close>

text \<open>One call of \<^verbatim>\<open>requestNativeCurrentLocation\<close> by a handler: its options and
  what the call did before it first gave up control.\<close>

record native_invocation =
  opt_recenter :: bool
  opt_silent :: bool
  first_part :: native_call

text \<open>\<open>now\<close> is \<^verbatim>\<open>Date.now()\<close>. The result holds the call of
  \<^verbatim>\<open>requestNativeCurrentLocation({silent: true})\<close> when the handler made it.\<close>

definition handle_geoError ::
  "platform \<Rightarrow> bool \<Rightarrow> int \<Rightarrow> MapScreen \<Rightarrow> native_invocation option \<times> MapScreen" where
  "handle_geoError os module_present now s =
     (if locationPermissionGranted s then
        (if now - nativeFallbackCooldownRef s < 1800 then (None, s)
         else
           (let s1 = s\<lparr>nativeFallbackCooldownRef := now\<rparr>;
                (call, s2) = requestNativeCurrentLocation os module_present s1
            in (Some \<lparr>opt_recenter = False, opt_silent = True, first_part = call\<rparr>, s2)))
      else (None, s))"

definition MSG_GEO_INSECURE :: string where
  "MSG_GEO_INSECURE = ''location failed: map page origin is not secure''"

definition MSG_GEO_FAILED :: "string \<Rightarrow> string" where
  "MSG_GEO_FAILED detail = ''location failed: '' @ detail"

definition MSG_GEO_FAILED_PLAIN :: string where
  "MSG_GEO_FAILED_PLAIN = ''location failed, the map can still be browsed''"

text \<open>The \<^verbatim>\<open>then\<close> callback on the promise of the native request;
  \<open>secure_origin\<close> is the result of the regular expression test on \<open>detail\<close>.\<close>

definition geoError_then :: "string \<Rightarrow> bool \<Rightarrow> bool \<Rightarrow> MapScreen \<Rightarrow> MapScreen" where
  "geoError_then detail secure_origin ok s =
     (if ok then s
      else if secure_origin then showNotice MSG_GEO_INSECURE s
      else if detail \<noteq> [] then showNotice (MSG_GEO_FAILED detail) s
      else showNotice MSG_GEO_FAILED_PLAIN s)"

section \<open>Submitting a draft: \<^verbatim>\<open>saveDraft\<close> from its first request on\<close>

definition resetDraftState :: "MapScreen \<Rightarrow> MapScreen" where
  "resetDraftState s =
     s\<lparr>categorySelectOpen := False, timeFixHint := [], draftImageFile := None,
       draftImageHint := [], draftImageError := [], draftImageBusy := False,
       draft := None, editingId := None, canDeleteDraft := True,
       deleteConfirmOpen := False\<rparr>"

text \<open>\<^verbatim>\<open>editingId ? PATCH : POST\<close>: a null or zero id is falsy.\<close>

definition save_request :: "rat option \<Rightarrow> http_request" where
  "save_request editing =
     (case editing of
        Some i \<Rightarrow> if i \<noteq> 0 then PatchMarker i else PostMarker
      | None \<Rightarrow> PostMarker)"

text \<open>After the validation has passed: \<^verbatim>\<open>setSavingDraft(true)\<close> and the request.\<close>

definition saveDraft_send :: "MapScreen \<Rightarrow> effect list \<times> MapScreen" where
  "saveDraft_send s = ([Http (save_request (editingId s))], s\<lparr>savingDraft := True\<rparr>)"

definition MSG_SAVE_BAD_RESPONSE :: string where
  "MSG_SAVE_BAD_RESPONSE = ''saved, but the returned data is malformed''"

definition MSG_SAVE_FAILED :: string where
  "MSG_SAVE_FAILED = ''save failed''"

definition MSG_SUBMITTED :: string where
  "MSG_SUBMITTED = ''submitted for review''"

fun save_error_message :: "thrown \<Rightarrow> string" where
  "save_error_message (ErrorObj message code) = message"
| "save_error_message (NonError code) = MSG_SAVE_FAILED"

text \<open>The \<^verbatim>\<open>catch\<close> block followed by the \<^verbatim>\<open>finally\<close> block.\<close>

definition saveDraft_catch :: "thrown \<Rightarrow> MapScreen \<Rightarrow> MapScreen" where
  "saveDraft_catch e s = (showNotice (save_error_message e) s)\<lparr>savingDraft := False\<rparr>"

text \<open>The end of the \<^verbatim>\<open>try\<close> block, from \<^verbatim>\<open>setMarkers\<close> on, followed by the
  \<^verbatim>\<open>finally\<close> block.\<close>

definition saveDraft_commit :: "MapMarker \<Rightarrow> MapScreen \<Rightarrow> effect list \<times> MapScreen" where
  "saveDraft_commit created s =
     (let s1 = s\<lparr>markers :=
                  created # filter (\<lambda>marker. marker_id marker \<noteq> marker_id created) (markers s)\<rparr>;
          s2 = s1\<lparr>selectedMarkerId := Some (marker_id created)\<rparr>;
          s3 = resetDraftState s2;
          s4 = showNotice MSG_SUBMITTED s3
      in ([InjectSetView (lat created) (lng created) 15], s4\<lparr>savingDraft := False\<rparr>))"

datatype save_call = SaveFinished | SaveAwaitingImage MapMarker

text \<open>After the PATCH or POST has settled. \<open>file\<close> is the \<^verbatim>\<open>draftImageFile\<close> the
  callback closed over; the fulfilled value is the result of
  \<^verbatim>\<open>normalizeSingleMarker(payload)\<close>, \<^const>\<open>None\<close> for \<^verbatim>\<open>null\<close>.\<close>

fun saveDraft_submitted ::
  "LocalUploadImage option \<Rightarrow> MapMarker option settled \<Rightarrow> MapScreen
     \<Rightarrow> save_call \<times> effect list \<times> MapScreen" where
  "saveDraft_submitted file (Rejected e) s = (SaveFinished, [], saveDraft_catch e s)"
| "saveDraft_submitted file (Fulfilled None) s =
     (SaveFinished, [], saveDraft_catch (ErrorObj MSG_SAVE_BAD_RESPONSE None) s)"
| "saveDraft_submitted None (Fulfilled (Some created)) s =
     (let (effects, s') = saveDraft_commit created s in (SaveFinished, effects, s'))"
| "saveDraft_submitted (Some f) (Fulfilled (Some created)) s =
     (SaveAwaitingImage created, [Http (PostMarkerImage (marker_id created) f)], s)"

text \<open>After the image upload has settled; the fulfilled value is the result of
  \<^verbatim>\<open>normalizeSingleMarker\<close> on its payload.\<close>

fun saveDraft_image_settled ::
  "MapMarker \<Rightarrow> MapMarker option settled \<Rightarrow> MapScreen \<Rightarrow> effect list \<times> MapScreen" where
  "saveDraft_image_settled created (Rejected e) s = ([], saveDraft_catch e s)"
| "saveDraft_image_settled created (Fulfilled None) s = saveDraft_commit created s"
| "saveDraft_image_settled created (Fulfilled (Some withImage)) s =
     saveDraft_commit withImage s"

section \<open>Auxiliary notions for the proofs\<close>

text \<open>Membership in the grid of the multiples of \<open>2 powi g\<close>; a double of binary
  exponent \<open>e\<close> lies on the grid \<open>e - 52\<close>.\<close>

definition on_grid :: "int \<Rightarrow> rat \<Rightarrow> bool" where
  "on_grid g x = (of_int \<lfloor>x / 2 powi g\<rfloor> = x / 2 powi g)"

text \<open>An association list whose keys are the ids of its markers, and the merge loop
  started from any such list.\<close>

definition keyed :: "(rat \<times> MapMarker) list \<Rightarrow> bool" where
  "keyed es = list_all (\<lambda>(k, m). marker_id m = k) es"

definition merge_into :: "(rat \<times> MapMarker) list \<Rightarrow> MapMarker list \<Rightarrow> (rat \<times> MapMarker) list" where
  "merge_into acc ms = foldl (\<lambda>m marker. map_set (marker_id marker) marker m) acc ms"

text \<open>What \<^verbatim>\<open>normalizeMarkers\<close> returns for a payload item that has only an id, a
  latitude and a longitude.\<close>

definition normalized_minimal :: "rat \<Rightarrow> rat \<Rightarrow> rat \<Rightarrow> MapMarker" where
  "normalized_minimal i la lo =
     \<lparr>marker_id = i, lat = la, lng = lo, category = self_definition,
      title = ''unnamed marker'', description = [], isPublic = True, isActive = True,
      openTimeStart = None, openTimeEnd = None, markImage = None, username = [],
      userPublicId = None\<rparr>"

text \<open>Sample values.\<close>

definition example_bounds :: ViewportBounds where
  "example_bounds =
     \<lparr>minLat = 39, maxLat = 40, minLng = 116, maxLng = 117,
      wrapsAntimeridian = False, wholeWorld = False\<rparr>"

definition screen_after_four_loads :: MapScreen where
  "screen_after_four_loads =
     (initial_screen ios)\<lparr>markerQuerySeqRef := 4, hasLoadedMarkersRef := True, loading := False,
        markers := [normalized_minimal 1 39 116]\<rparr>"

text \<open>Three calls of \<^verbatim>\<open>loadMarkersInViewport\<close> one after the other, none of them
  answered yet.\<close>

definition fifth_load :: "load_call \<times> MapScreen" where
  "fifth_load = loadMarkersInViewport example_bounds [friendly_clinic] screen_after_four_loads"

definition sixth_load :: "load_call \<times> MapScreen" where
  "sixth_load = loadMarkersInViewport example_bounds [accessible_toilet] (snd fifth_load)"

definition seventh_load :: "load_call \<times> MapScreen" where
  "seventh_load = loadMarkersInViewport example_bounds [friendly_clinic] (snd sixth_load)"

definition busy_screen :: MapScreen where
  "busy_screen = (initial_screen ios)\<lparr>nativeLocateInFlightRef := True\<rparr>"

definition cooled_screen :: MapScreen where
  "cooled_screen = (initial_screen ios)\<lparr>nativeFallbackCooldownRef := 10000\<rparr>"

definition example_image :: LocalUploadImage where
  "example_image = \<lparr>uri = ''file:///photo.jpg'', mime_type = ''image/jpeg'', file_name = ''photo.jpg''\<rparr>"

definition zoomed_out_message :: moveend_message where
  "zoomed_out_message =
     \<lparr>msg_latitude = Finite 0, msg_longitude = Finite 0, msg_zoom = Finite 2,
      msg_south = Finite (- 80), msg_north = Finite 80,
      msg_west = Finite (- 170), msg_east = Finite 170\<rparr>"

definition left_a :: MapMarker where "left_a = normalized_minimal 1 0 175"
definition left_b :: MapMarker where "left_b = normalized_minimal 2 0 179"
definition right_b :: MapMarker where "right_b = normalized_minimal 2 1 (- 179)"
definition right_c :: MapMarker where "right_c = normalized_minimal 3 0 (- 175)"

section \<open>Rounding to doubles\<close>

lemma pow2_pos [simp]: "0 < (2::rat) powi e"
  by simp

lemma pow2_ne0 [simp]: "(2::rat) powi e \<noteq> 0"
  by simp

lemma pow2_add: "(2::rat) powi (a + b) = 2 powi a * 2 powi b"
  by (simp add: power_int_add)

lemma pow2_diff: "(2::rat) powi (a - b) = 2 powi a / 2 powi b"
  by (simp add: power_int_diff)

lemma pow2_mono: "a \<le> b \<Longrightarrow> (2::rat) powi a \<le> 2 powi b"
  by (rule power_int_increasing) simp_all

lemma pow2_strict_mono: "a < b \<Longrightarrow> (2::rat) powi a < 2 powi b"
  by (rule power_int_strict_increasing) simp_all

lemma pow2_nat: "0 \<le> e \<Longrightarrow> (2::rat) powi e = of_int (2 ^ nat e)"
  by (simp add: power_int_def)

lemma on_grid_iff: "on_grid g x \<longleftrightarrow> (\<exists>j::int. x = of_int j * 2 powi g)"
proof
  assume "on_grid g x"
  then have h: "of_int \<lfloor>x / 2 powi g\<rfloor> = x / 2 powi g"
    unfolding on_grid_def .
  have "x = (x / 2 powi g) * 2 powi g" by simp
  also have "\<dots> = of_int \<lfloor>x / 2 powi g\<rfloor> * 2 powi g" by (simp only: h)
  finally have "x = of_int \<lfloor>x / 2 powi g\<rfloor> * 2 powi g" .
  then show "\<exists>j::int. x = of_int j * 2 powi g" ..
next
  assume "\<exists>j::int. x = of_int j * 2 powi g"
  then obtain j :: int where "x = of_int j * 2 powi g" ..
  then show "on_grid g x" by (simp add: on_grid_def)
qed

lemma on_gridI: "x = of_int j * 2 powi g \<Longrightarrow> on_grid g x"
  using on_grid_iff by blast

lemma on_grid_coarse:
  assumes "on_grid g x" and "g' \<le> g"
  shows "on_grid g' x"
proof -
  from assms(1) obtain j :: int where x: "x = of_int j * 2 powi g"
    using on_grid_iff by blast
  have "(2::rat) powi g = 2 powi (g - g') * 2 powi g'"
    using pow2_add[of "g - g'" g'] by simp
  also have "(2::rat) powi (g - g') = of_int (2 ^ nat (g - g'))"
    using assms(2) by (simp add: pow2_nat)
  finally have "x = of_int (j * 2 ^ nat (g - g')) * 2 powi g'"
    using x by simp
  then show ?thesis by (rule on_gridI)
qed

lemma on_grid_add: "on_grid g x \<Longrightarrow> on_grid g y \<Longrightarrow> on_grid g (x + y)"
proof -
  assume "on_grid g x" "on_grid g y"
  then obtain j k :: int where "x = of_int j * 2 powi g" "y = of_int k * 2 powi g"
    using on_grid_iff by blast
  then have "x + y = of_int (j + k) * 2 powi g" by (simp add: algebra_simps)
  then show ?thesis by (rule on_gridI)
qed

lemma on_grid_diff: "on_grid g x \<Longrightarrow> on_grid g y \<Longrightarrow> on_grid g (x - y)"
proof -
  assume "on_grid g x" "on_grid g y"
  then obtain j k :: int where "x = of_int j * 2 powi g" "y = of_int k * 2 powi g"
    using on_grid_iff by blast
  then have "x - y = of_int (j - k) * 2 powi g" by (simp add: algebra_simps)
  then show ?thesis by (rule on_gridI)
qed

lemma on_grid_int: "g \<le> 0 \<Longrightarrow> on_grid g (of_int n)"
proof -
  assume "g \<le> 0"
  have "on_grid 0 (of_int n)" by (simp add: on_grid_def)
  then show ?thesis using \<open>g \<le> 0\<close> by (rule on_grid_coarse)
qed

lemma on_grid_mult_int: "on_grid g x \<Longrightarrow> on_grid g (x * of_int n)"
proof -
  assume "on_grid g x"
  then obtain j :: int where "x = of_int j * 2 powi g" using on_grid_iff by blast
  then have "x * of_int n = of_int (j * n) * 2 powi g" by simp
  then show ?thesis by (rule on_gridI)
qed

lemma on_grid_pow2: "on_grid (e - 52) (2 powi e)"
proof -
  have "(2::rat) powi e = 2 powi 52 * 2 powi (e - 52)"
    using pow2_add[of 52 "e - 52"] by simp
  also have "(2::rat) powi 52 = of_int (2 ^ 52)" by simp
  finally show ?thesis by (rule on_gridI)
qed

lemma round_half_even_of_int [simp]: "round_half_even (of_int j) = j"
  by (simp add: round_half_even_def)

lemma round_half_even_cases:
  "round_half_even t = \<lfloor>t\<rfloor> \<or> (round_half_even t = \<lfloor>t\<rfloor> + 1 \<and> of_int \<lfloor>t\<rfloor> + 1 / 2 \<le> t)"
  by (auto simp: round_half_even_def Let_def)

lemma round_half_even_ge: "of_int k \<le> t \<Longrightarrow> k \<le> round_half_even t"
proof -
  assume "of_int k \<le> t"
  then have "k \<le> \<lfloor>t\<rfloor>" by (simp add: le_floor_iff)
  then show ?thesis using round_half_even_cases[of t] by auto
qed

lemma round_half_even_le: "t \<le> of_int k \<Longrightarrow> round_half_even t \<le> k"
proof -
  assume le: "t \<le> of_int k"
  then have f: "\<lfloor>t\<rfloor> \<le> k" by (simp add: floor_le_iff) 
  show ?thesis
  proof (rule disjE[OF round_half_even_cases[of t]])
    assume "round_half_even t = \<lfloor>t\<rfloor>"
    then show ?thesis using f by simp
  next
    assume a: "round_half_even t = \<lfloor>t\<rfloor> + 1 \<and> of_int \<lfloor>t\<rfloor> + 1 / 2 \<le> t"
    then have "(of_int \<lfloor>t\<rfloor> :: rat) < of_int k" using le by linarith
    then have "\<lfloor>t\<rfloor> < k" by (simp only: of_int_less_iff)
    then show ?thesis using a by simp
  qed
qed

lemma bexp_ge1:
  assumes "1 \<le> \<bar>x\<bar>"
  shows "2 powi bexp x \<le> \<bar>x\<bar> \<and> \<bar>x\<bar> < 2 powi (bexp x + 1)"
proof -
  define n where "n = \<lfloor>\<bar>x\<bar>\<rfloor>"
  have n1: "1 \<le> n" using assms by (simp add: n_def le_floor_iff)
  then have npos: "0 < n" by simp
  have lo: "(2::int) ^ nat (bitlen n - 1) \<le> n" and hi: "n < 2 ^ nat (bitlen n)"
    using bitlen_bounds[OF npos] by auto
  have bl: "1 \<le> bitlen n"
  proof (rule ccontr)
    assume "\<not> 1 \<le> bitlen n"
    then have "nat (bitlen n) = 0" by simp
    then show False using hi n1 by simp
  qed
  have e: "bexp x = bitlen n - 1" using assms by (simp add: bexp_def n_def)
  have p1: "(2::rat) powi (bitlen n - 1) = of_int (2 ^ nat (bitlen n - 1))"
    using bl by (simp add: pow2_nat)
  have p2: "(2::rat) powi (bitlen n - 1 + 1) = of_int (2 ^ nat (bitlen n))"
    using bl by (simp add: pow2_nat)
  have a: "(of_int ((2::int) ^ nat (bitlen n - 1)) :: rat) \<le> of_int n"
    using lo by (simp only: of_int_le_iff)
  have b: "(of_int n :: rat) \<le> \<bar>x\<bar>" by (simp add: n_def)
  have "n + 1 \<le> 2 ^ nat (bitlen n)" using hi by simp
  then have "(of_int (n + 1) :: rat) \<le> of_int (2 ^ nat (bitlen n))"
    by (simp only: of_int_le_iff)
  then have c: "(of_int n :: rat) + 1 \<le> of_int (2 ^ nat (bitlen n))" by simp
  have d: "\<bar>x\<bar> < of_int n + 1" using floor_correct[of "\<bar>x\<bar>"] by (simp add: n_def)
  show ?thesis unfolding e p2 p1 using a b c d by linarith
qed

lemma bexp_lt1:
  assumes "x \<noteq> 0" and "\<bar>x\<bar> < 1"
  shows "2 powi bexp x \<le> \<bar>x\<bar> \<and> \<bar>x\<bar> < 2 powi (bexp x + 1)"
proof -
  define y where "y = 1 / \<bar>x\<bar>"
  define m where "m = \<lceil>y\<rceil> - 1"
  have xpos: "0 < \<bar>x\<bar>" using assms(1) by simp
  have y1: "1 < y" unfolding y_def using assms(2) xpos by (simp add: field_simps)
  have my: "of_int m < y" and ym: "y \<le> of_int m + 1"
    using ceiling_correct[of y] by (simp_all add: m_def)
  have "(of_int 0 :: rat) < of_int m + 1" using y1 ym by simp
  then have "(of_int 0 :: rat) < of_int (m + 1)" by simp
  then have "0 < m + 1" by (simp only: of_int_less_iff)
  moreover have "m \<noteq> 0" using y1 ym by auto
  ultimately have mpos: "0 < m" by simp
  have lo: "(2::int) ^ nat (bitlen m - 1) \<le> m" and hi: "m < 2 ^ nat (bitlen m)"
    using bitlen_bounds[OF mpos] by auto
  have bl: "1 \<le> bitlen m"
  proof (rule ccontr)
    assume "\<not> 1 \<le> bitlen m"
    then have "nat (bitlen m) = 0" by simp
    then show False using hi mpos by simp
  qed
  have e: "bexp x = - bitlen m" using assms(2) by (simp add: bexp_def m_def y_def)
  have k1: "(2::rat) powi bitlen m = of_int (2 ^ nat (bitlen m))"
    using bl by (simp add: pow2_nat)
  have k2: "(2::rat) powi (bitlen m - 1) = of_int (2 ^ nat (bitlen m - 1))"
    using bl by (simp add: pow2_nat)
  have "m + 1 \<le> 2 ^ nat (bitlen m)" using hi by simp
  then have "(of_int (m + 1) :: rat) \<le> of_int (2 ^ nat (bitlen m))"
    by (simp only: of_int_le_iff)
  then have "y \<le> 2 powi bitlen m" unfolding k1 using ym by simp
  then have "1 \<le> 2 powi bitlen m * \<bar>x\<bar>"
    unfolding y_def using xpos by (simp add: field_simps)
  then have A: "2 powi (- bitlen m) \<le> \<bar>x\<bar>"
    by (simp add: power_int_minus field_simps)
  have "(of_int (2 ^ nat (bitlen m - 1)) :: rat) \<le> of_int m"
    using lo by (simp only: of_int_le_iff)
  then have "2 powi (bitlen m - 1) < y" unfolding k2 using my by linarith
  then have "2 powi (bitlen m - 1) * \<bar>x\<bar> < 1"
    unfolding y_def using xpos by (simp add: field_simps)
  then have "\<bar>x\<bar> < 1 / 2 powi (bitlen m - 1)"
    by (simp add: field_simps)
  also have "1 / (2::rat) powi (bitlen m - 1) = 2 powi (- bitlen m + 1)"
    using power_int_minus[of "2::rat" "bitlen m - 1"] by (simp add: field_simps)
  finally have B: "\<bar>x\<bar> < 2 powi (- bitlen m + 1)" .
  show ?thesis unfolding e using A B by simp
qed

lemma bexp_bounds:
  "x \<noteq> 0 \<Longrightarrow> 2 powi bexp x \<le> \<bar>x\<bar> \<and> \<bar>x\<bar> < 2 powi (bexp x + 1)"
  using bexp_ge1[of x] bexp_lt1[of x] by (cases "1 \<le> \<bar>x\<bar>") simp_all

lemma bexp_less:
  assumes "x \<noteq> 0" and "\<bar>x\<bar> < 2 powi n"
  shows "bexp x < n"
proof (rule ccontr)
  assume "\<not> bexp x < n"
  then have "(2::rat) powi n \<le> 2 powi bexp x" by (simp add: pow2_mono)
  then show False using bexp_bounds[OF assms(1)] assms(2) by linarith
qed

lemma bexp_ge:
  assumes "2 powi n \<le> \<bar>x\<bar>"
  shows "n \<le> bexp x"
proof (rule ccontr)
  have x0: "x \<noteq> 0"
  proof
    assume "x = 0"
    then have "(2::rat) powi n \<le> 0" using assms by simp
    then show False using pow2_pos[of n] by linarith
  qed
  assume "\<not> n \<le> bexp x"
  then have "bexp x + 1 \<le> n" by simp
  then have "(2::rat) powi (bexp x + 1) \<le> 2 powi n" by (rule pow2_mono)
  then show False using bexp_bounds[OF x0] assms by linarith
qed

lemma round53_zero [simp]: "round53 0 = 0"
  by (simp add: round53_def round_half_even_def)

lemma round53_grid: "on_grid (bexp x - 52) (round53 x)"
  by (rule on_gridI) (simp add: round53_def Let_def)

lemma round53_ge_grid:
  assumes "on_grid (bexp w - 52) c" and "c \<le> w"
  shows "c \<le> round53 w"
proof -
  define q :: rat where "q = 2 powi (bexp w - 52)"
  have qpos: "0 < q" by (simp add: q_def)
  from assms(1) obtain j :: int where c: "c = of_int j * q"
    unfolding q_def using on_grid_iff by blast
  have "of_int j \<le> w / q" using assms(2) c qpos by (simp add: field_simps)
  then have "j \<le> round_half_even (w / q)" by (rule round_half_even_ge)
  then have "(of_int j :: rat) \<le> of_int (round_half_even (w / q))"
    by (simp only: of_int_le_iff)
  then have "of_int j * q \<le> of_int (round_half_even (w / q)) * q"
    using qpos by (simp add: mult_right_mono)
  then show ?thesis unfolding c by (simp add: round53_def q_def Let_def)
qed

lemma round53_le_grid:
  assumes "on_grid (bexp w - 52) c" and "w \<le> c"
  shows "round53 w \<le> c"
proof -
  define q :: rat where "q = 2 powi (bexp w - 52)"
  have qpos: "0 < q" by (simp add: q_def)
  from assms(1) obtain j :: int where c: "c = of_int j * q"
    unfolding q_def using on_grid_iff by blast
  have "w / q \<le> of_int j" using assms(2) c qpos by (simp add: field_simps)
  then have "round_half_even (w / q) \<le> j" by (rule round_half_even_le)
  then have "(of_int (round_half_even (w / q)) :: rat) \<le> of_int j"
    by (simp only: of_int_le_iff)
  then have "of_int (round_half_even (w / q)) * q \<le> of_int j * q"
    using qpos by (simp add: mult_right_mono)
  then show ?thesis unfolding c by (simp add: round53_def q_def Let_def)
qed

lemma on_grid_zero [simp]: "on_grid g 0"
  by (simp add: on_grid_def)

lemma round53_nonneg: "0 \<le> w \<Longrightarrow> 0 \<le> round53 w"
  by (rule round53_ge_grid) simp_all

lemma round53_nonpos: "w \<le> 0 \<Longrightarrow> round53 w \<le> 0"
  by (rule round53_le_grid) simp_all

lemma round53_fix:
  assumes "on_grid (bexp x - 52) x"
  shows "round53 x = x"
proof -
  have "x \<le> round53 x" using assms by (rule round53_ge_grid) simp
  moreover have "round53 x \<le> x" using assms by (rule round53_le_grid) simp
  ultimately show ?thesis by simp
qed

lemma round53_exact:
  assumes "on_grid g x" and "\<bar>x\<bar> < 2 powi (g + 53)"
  shows "round53 x = x"
proof (cases "x = 0")
  case True
  then show ?thesis by simp
next
  case False
  then have "bexp x < g + 53" using assms(2) by (rule bexp_less)
  then have "bexp x - 52 \<le> g" by simp
  with assms(1) have "on_grid (bexp x - 52) x" by (rule on_grid_coarse)
  then show ?thesis by (rule round53_fix)
qed

lemma round53_bounds_pos:
  assumes "0 < w"
  shows "2 powi bexp w \<le> round53 w" and "round53 w \<le> 2 powi (bexp w + 1)"
proof -
  have w0: "w \<noteq> 0" using assms by simp
  have b: "2 powi bexp w \<le> w" "w < 2 powi (bexp w + 1)"
    using bexp_bounds[OF w0] assms by simp_all
  show "2 powi bexp w \<le> round53 w"
    using on_grid_pow2 b(1) by (rule round53_ge_grid)
  have "on_grid (bexp w + 1 - 52) (2 powi (bexp w + 1))" by (rule on_grid_pow2)
  then have "on_grid (bexp w - 52) (2 powi (bexp w + 1))"
    by (rule on_grid_coarse) simp
  moreover have "w \<le> 2 powi (bexp w + 1)" using b(2) by simp
  ultimately show "round53 w \<le> 2 powi (bexp w + 1)" by (rule round53_le_grid)
qed

lemma round53_grid_large:
  assumes "0 < w" and "2 powi e \<le> round53 w"
  shows "on_grid (e - 52) (round53 w)"
proof (cases "e \<le> bexp w")
  case True
  have "on_grid (bexp w - 52) (round53 w)" by (rule round53_grid)
  then show ?thesis by (rule on_grid_coarse) (use True in simp)
next
  case False
  then have "bexp w + 1 \<le> e" by simp
  then have "(2::rat) powi (bexp w + 1) \<le> 2 powi e" by (rule pow2_mono)
  with round53_bounds_pos(2)[OF assms(1)] assms(2)
  have "round53 w = 2 powi e" by linarith
  then show ?thesis using on_grid_pow2[of e] by simp
qed

lemma on_grid_minus: "on_grid g x \<Longrightarrow> on_grid g (- x)"
  using on_grid_diff[of g 0 x] by simp

lemma round53_abs_le:
  assumes "x \<noteq> 0"
  shows "\<bar>round53 x\<bar> \<le> 2 powi (bexp x + 1)"
proof -
  have b: "\<bar>x\<bar> < 2 powi (bexp x + 1)" using bexp_bounds[OF assms] by simp
  have "on_grid (bexp x + 1 - 52) (2 powi (bexp x + 1))" by (rule on_grid_pow2)
  then have g: "on_grid (bexp x - 52) (2 powi (bexp x + 1))"
    by (rule on_grid_coarse) simp
  have "x \<le> 2 powi (bexp x + 1)" using b by linarith
  with g have u: "round53 x \<le> 2 powi (bexp x + 1)" by (rule round53_le_grid)
  have "- (2 powi (bexp x + 1)) \<le> x" using b by linarith
  with on_grid_minus[OF g] have l: "- (2 powi (bexp x + 1)) \<le> round53 x"
    by (rule round53_ge_grid)
  from u l show ?thesis by linarith
qed

lemma round53_idem: "round53 (round53 x) = round53 x"
proof (cases "x = 0")
  case True
  then show ?thesis by simp
next
  case False
  define P :: rat where "P = 2 powi (bexp x + 1)"
  have le: "\<bar>round53 x\<bar> \<le> P" unfolding P_def using False by (rule round53_abs_le)
  show ?thesis
  proof (cases "\<bar>round53 x\<bar> < P")
    case True
    have "on_grid (bexp x - 52) (round53 x)" by (rule round53_grid)
    moreover have "bexp x - 52 + 53 = bexp x + 1" by simp
    then have "\<bar>round53 x\<bar> < 2 powi (bexp x - 52 + 53)"
      using True unfolding P_def by (simp only:)
    ultimately show ?thesis by (rule round53_exact)
  next
    case False
    with le have eq: "\<bar>round53 x\<bar> = P" by linarith
    have gP: "on_grid (bexp x + 1 - 52) P" unfolding P_def by (rule on_grid_pow2)
    have "on_grid (bexp x + 1 - 52) (round53 x)"
    proof (cases "0 \<le> round53 x")
      case True
      then have "round53 x = P" using eq by simp
      then show ?thesis using gP by simp
    next
      case False
      then have "round53 x = - P" using eq by simp
      then show ?thesis using on_grid_minus[OF gP] by simp
    qed
    moreover have "\<bar>round53 x\<bar> < 2 powi (bexp x + 1 - 52 + 53)"
      unfolding eq P_def by (rule pow2_strict_mono) simp
    ultimately show ?thesis by (rule round53_exact)
  qed
qed

section \<open>The remainder and the longitude wrap\<close>

lemma js_mod_360_nonneg:
  assumes "0 \<le> a"
  shows "0 \<le> js_mod a 360" and "js_mod a 360 < 360" and "js_mod a 360 \<le> a"
proof -
  define k where "k = \<lfloor>a / 360\<rfloor>"
  have t: "truncate_rat (a / 360) = k" using assms by (simp add: truncate_rat_def k_def)
  have m: "js_mod a 360 = a - 360 * of_int k" by (simp add: js_mod_def t)
  have "of_int k \<le> a / 360" "a / 360 < of_int k + 1"
    using floor_correct[of "a / 360"] by (simp_all add: k_def)
  then have b: "360 * of_int k \<le> a" "a < 360 * of_int k + 360" by (simp_all add: field_simps)
  have "0 \<le> k" using assms by (simp add: k_def)
  then have k0: "(0::rat) \<le> of_int k" by simp
  show "0 \<le> js_mod a 360" using m b by linarith
  show "js_mod a 360 < 360" using m b by linarith
  show "js_mod a 360 \<le> a" using m k0 by linarith
qed

lemma js_mod_360_nonpos:
  assumes "a \<le> 0"
  shows "- 360 < js_mod a 360" and "js_mod a 360 \<le> 0"
proof -
  define k where "k = \<lceil>a / 360\<rceil>"
  have t: "of_int (truncate_rat (a / 360)) = (of_int k :: rat)"
  proof (cases "a = 0")
    case True
    then show ?thesis by (simp add: truncate_rat_def k_def)
  next
    case False
    then have "a / 360 < 0" using assms by simp
    then show ?thesis by (simp add: truncate_rat_def k_def)
  qed
  have m: "js_mod a 360 = a - 360 * of_int k" by (simp add: js_mod_def t)
  have "of_int k - 1 < a / 360" "a / 360 \<le> of_int k"
    using ceiling_correct[of "a / 360"] by (simp_all add: k_def)
  then have b: "360 * of_int k - 360 < a" "a \<le> 360 * of_int k" by (simp_all add: field_simps)
  show "- 360 < js_mod a 360" using m b by linarith
  show "js_mod a 360 \<le> 0" using m b by linarith
qed

lemma js_mod_360_bounds: "- 360 < js_mod a 360 \<and> js_mod a 360 < 360"
proof (cases "0 \<le> a")
  case True
  then show ?thesis using js_mod_360_nonneg[of a] by simp
next
  case False
  then have "a \<le> 0" by simp
  then show ?thesis using js_mod_360_nonpos[of a] by simp
qed

lemma js_mod_360_grid:
  assumes "on_grid g a" and "g \<le> 0"
  shows "on_grid g (js_mod a 360)"
proof -
  have "on_grid g (of_int (360 * truncate_rat (a / 360)))"
    using assms(2) by (rule on_grid_int)
  with assms(1) have "on_grid g (a - of_int (360 * truncate_rat (a / 360)))"
    by (rule on_grid_diff)
  then show ?thesis by (simp add: js_mod_def)
qed

lemma js_mod_360_id:
  assumes "0 \<le> a" and "a < 360"
  shows "js_mod a 360 = a"
proof -
  have "\<lfloor>a / 360\<rfloor> = 0" using assms by (simp add: floor_eq_iff)
  then show ?thesis using assms by (simp add: js_mod_def truncate_rat_def)
qed

lemma js_mod_360_sub:
  assumes "360 \<le> a" and "a < 720"
  shows "js_mod a 360 = a - 360"
proof -
  have "\<lfloor>a / 360\<rfloor> = 1" using assms by (simp add: floor_eq_iff)
  then show ?thesis using assms by (simp add: js_mod_def truncate_rat_def)
qed

lemma on_grid_numeral: "g \<le> 0 \<Longrightarrow> on_grid g (numeral n)"
  using on_grid_int[of g "numeral n"] by simp

lemma second_wrap_lt_180:
  assumes "- 360 < z" and "z < 360"
  shows "round53 (js_mod (round53 (z + 360)) 360 - 180) < 180"
proof -
  define w where "w = z + 360"
  define B where "B = round53 w"
  define y where "y = js_mod B 360"
  define t where "t = y - 180"
  have wpos: "0 < w" using assms by (simp add: w_def)
  have B0: "0 \<le> B" unfolding B_def using wpos by (simp add: round53_nonneg)
  have y0: "0 \<le> y" and y360: "y < 360" and yB: "y \<le> B"
    unfolding y_def using js_mod_360_nonneg[OF B0] by simp_all
  have t180: "t < 180" using y360 by (simp add: t_def)
  have "round53 t < 180"
  proof (cases "t \<le> 0")
    case True
    then have "round53 t \<le> 0" by (rule round53_nonpos)
    then show ?thesis by simp
  next
    case False
    then have tpos: "0 < t" by simp
    show ?thesis
    proof (cases "t < 128")
      case True
      have "\<bar>t\<bar> < 2 powi 7" using True tpos by simp
      with tpos have "bexp t < 7" by (intro bexp_less) simp_all
      then have "bexp t + 1 \<le> 7" by simp
      then have "(2::rat) powi (bexp t + 1) \<le> 2 powi 7" by (rule pow2_mono)
      with round53_bounds_pos(2)[OF tpos] have "round53 t \<le> 128" by simp
      then show ?thesis by simp
    next
      case False
      then have "308 \<le> y" by (simp add: t_def)
      with yB have "2 powi 8 \<le> B" by simp
      with wpos have "on_grid (8 - 52) B" unfolding B_def by (rule round53_grid_large)
      then have gB: "on_grid (- 44) B" by simp
      have "on_grid (- 44) y" unfolding y_def using gB by (rule js_mod_360_grid) simp
      moreover have "on_grid (- 44) (180::rat)" by (rule on_grid_numeral) simp
      ultimately have "on_grid (- 44) t" unfolding t_def by (rule on_grid_diff)
      moreover have "\<bar>t\<bar> < 2 powi (- 44 + 53)" using tpos t180 by simp
      ultimately have "round53 t = t" by (rule round53_exact)
      then show ?thesis using t180 by simp
    qed
  qed
  then show ?thesis by (simp add: t_def y_def B_def w_def)
qed

lemma normalizeLng_range: "- 180 \<le> normalizeLng v \<and> normalizeLng v < 180"
proof -
  define z where "z = js_mod (round53 (v + 180)) 360"
  have "- 360 < z" "z < 360" using js_mod_360_bounds[of "round53 (v + 180)"]
    by (simp_all add: z_def)
  then have "round53 (js_mod (round53 (z + 360)) 360 - 180) < 180"
    by (rule second_wrap_lt_180)
  then show ?thesis
    by (simp add: normalizeLng_def js_add_def js_sub_def Let_def z_def)
qed

lemma normalizeLng_m180: "normalizeLng (- 180) = - 180"
  by code_simp

lemma normalizeLng_fix:
  assumes g: "on_grid (- 44) y" and y0: "0 \<le> y" and y360: "y < 360"
    and B: "round53 (y + 360) = y + 360"
  shows "normalizeLng (y - 180) = y - 180"
proof -
  have g180: "on_grid (- 44) (180::rat)" by (rule on_grid_numeral) simp
  have "\<bar>y\<bar> < 2 powi (- 44 + 53)" using y0 y360 by simp
  with g have A: "round53 y = y" by (rule round53_exact)
  have z: "js_mod y 360 = y" using y0 y360 by (rule js_mod_360_id)
  have "360 \<le> y + 360" "y + 360 < 720" using y0 y360 by simp_all
  then have y': "js_mod (y + 360) 360 = y" using js_mod_360_sub[of "y + 360"] by simp
  have "on_grid (- 44) (y - 180)" using g g180 by (rule on_grid_diff)
  moreover have "\<bar>y - 180\<bar> < 2 powi (- 44 + 53)" using y0 y360 by simp
  ultimately have r: "round53 (y - 180) = y - 180" by (rule round53_exact)
  show ?thesis
    using y0 y360 by (simp add: normalizeLng_def js_add_def js_sub_def Let_def A z B y' r)
qed

lemma normalizeLng_idem_ge:
  assumes "- 180 \<le> v"
  shows "normalizeLng (normalizeLng v) = normalizeLng v"
proof -
  define A where "A = round53 (v + 180)"
  define z where "z = js_mod A 360"
  define w where "w = z + 360"
  define B where "B = round53 w"
  define y where "y = js_mod B 360"
  have g180: "on_grid (- 44) (180::rat)" by (rule on_grid_numeral) simp
  have A0: "0 \<le> A" unfolding A_def using assms by (simp add: round53_nonneg)
  have z0: "0 \<le> z" and z360: "z < 360"
    unfolding z_def using js_mod_360_nonneg[OF A0] by simp_all
  have w1: "360 \<le> w" and w2: "w < 720" and wpos: "0 < w"
    using z0 z360 by (simp_all add: w_def)
  have "2 powi 8 \<le> \<bar>w\<bar>" using w1 by simp
  then have e8: "8 \<le> bexp w" by (rule bexp_ge)
  have gc: "on_grid (bexp w - 52) (numeral n)" for n
  proof -
    have "\<bar>w\<bar> < 2 powi 10" using w1 w2 by simp
    with wpos have "bexp w < 10" by (intro bexp_less) simp_all
    then show ?thesis by (intro on_grid_numeral) simp
  qed
  have B1: "360 \<le> B" unfolding B_def using gc w1 by (rule round53_ge_grid)
  have "w \<le> 720" using w2 by simp
  with gc have B2: "B \<le> 720" unfolding B_def by (rule round53_le_grid)
  have "on_grid (bexp w - 52) B" unfolding B_def by (rule round53_grid)
  then have gB: "on_grid (- 44) B" by (rule on_grid_coarse) (use e8 in simp)
  have BB: "round53 B = B" unfolding B_def by (rule round53_idem)
  have N: "normalizeLng v = max (- 180) (min 180 (round53 (y - 180)))"
    by (simp add: normalizeLng_def js_add_def js_sub_def Let_def y_def B_def w_def z_def A_def)
  show ?thesis
  proof (cases "B = 720")
    case True
    then have "y = 0" by (simp add: y_def js_mod_def truncate_rat_def)
    moreover have "round53 (- 180) = - 180"
      by (rule round53_exact[of 0]) (simp_all add: on_grid_def)
    ultimately have "normalizeLng v = - 180" using N by simp
    then show ?thesis by (simp add: normalizeLng_m180)
  next
    case False
    then have B3: "B < 720" using B2 by simp
    have yB: "y = B - 360" unfolding y_def using B1 B3 by (rule js_mod_360_sub)
    have y0: "0 \<le> y" and y360: "y < 360" using B1 B3 by (simp_all add: yB)
    have "on_grid (- 44) (360::rat)" by (rule on_grid_numeral) simp
    with gB have gy: "on_grid (- 44) y" unfolding yB by (rule on_grid_diff)
    have "on_grid (- 44) (y - 180)" using gy g180 by (rule on_grid_diff)
    moreover have "\<bar>y - 180\<bar> < 2 powi (- 44 + 53)" using y0 y360 by simp
    ultimately have r: "round53 (y - 180) = y - 180" by (rule round53_exact)
    have Nv: "normalizeLng v = y - 180" using N r y0 y360 by simp
    have "round53 (y + 360) = y + 360" using BB by (simp add: yB)
    with gy y0 y360 have "normalizeLng (y - 180) = y - 180" by (rule normalizeLng_fix)
    then show ?thesis by (simp add: Nv)
  qed
qed

lemma double_wrap_exact:
  "js_mod (js_mod a 360 + 360) 360 = a - 360 * of_int \<lfloor>a / 360\<rfloor>"
proof -
  define k where "k = \<lfloor>a / 360\<rfloor>"
  define j where "j = truncate_rat (a / 360)"
  define m where "m = a - 360 * of_int k"
  define w where "w = js_mod a 360 + 360"
  define d where "d = k - j + 1"
  have "of_int k \<le> a / 360" "a / 360 < of_int k + 1"
    using floor_correct[of "a / 360"] by (simp_all add: k_def)
  then have m0: "0 \<le> m" and m360: "m < 360" by (simp_all add: m_def field_simps)
  have z: "js_mod a 360 = a - 360 * of_int j" by (simp add: js_mod_def j_def)
  have w0: "0 < w" and w720: "w < 720"
    using js_mod_360_bounds[of a] by (simp_all add: w_def)
  have wm: "w = m + 360 * of_int d" by (simp add: w_def z m_def d_def algebra_simps)
  have "(of_int (- 1) :: rat) < of_int d" using w0 m360 wm by simp
  then have d1: "- 1 < d" by (simp only: of_int_less_iff)
  have "(of_int d :: rat) < of_int 2" using w720 m0 wm by simp
  then have d2: "d < 2" by (simp only: of_int_less_iff)
  from d1 d2 have "d = 0 \<or> d = 1" by auto
  then have "js_mod w 360 = m"
  proof
    assume "d = 0"
    then have "w = m" using wm by simp
    then show ?thesis using js_mod_360_id[OF m0 m360] by simp
  next
    assume "d = 1"
    then have wv: "w = m + 360" using wm by simp
    then have "360 \<le> w" "w < 720" using m0 m360 by simp_all
    then have "js_mod w 360 = w - 360" by (rule js_mod_360_sub)
    then show ?thesis using wv by simp
  qed
  then show ?thesis by (simp add: w_def m_def k_def)
qed

lemma normalizeLng_exact_eq:
  "normalizeLng_exact v = v - 360 * of_int \<lfloor>(v + 180) / 360\<rfloor>"
proof -
  define k where "k = \<lfloor>(v + 180) / 360\<rfloor>"
  have "of_int k \<le> (v + 180) / 360" "(v + 180) / 360 < of_int k + 1"
    using floor_correct[of "(v + 180) / 360"] by (simp_all add: k_def)
  then have "- 180 \<le> v - 360 * of_int k" "v - 360 * of_int k < 180"
    by (simp_all add: field_simps)
  then show ?thesis
    by (simp add: normalizeLng_exact_def double_wrap_exact Let_def k_def)
qed

lemma normalizeLng_exact_range:
  "- 180 \<le> normalizeLng_exact v \<and> normalizeLng_exact v < 180"
proof -
  define k where "k = \<lfloor>(v + 180) / 360\<rfloor>"
  have "of_int k \<le> (v + 180) / 360" "(v + 180) / 360 < of_int k + 1"
    using floor_correct[of "(v + 180) / 360"] by (simp_all add: k_def)
  then have "- 180 \<le> v - 360 * of_int k" "v - 360 * of_int k < 180"
    by (simp_all add: field_simps)
  then show ?thesis by (simp add: normalizeLng_exact_eq k_def)
qed

lemma normalizeLng_exact_idem:
  "normalizeLng_exact (normalizeLng_exact v) = normalizeLng_exact v"
proof -
  define u where "u = normalizeLng_exact v"
  have "- 180 \<le> u" "u < 180" using normalizeLng_exact_range[of v] by (simp_all add: u_def)
  then have "\<lfloor>(u + 180) / 360\<rfloor> = 0" by (simp add: floor_eq_iff)
  then have "normalizeLng_exact u = u" by (simp add: normalizeLng_exact_eq)
  then show ?thesis by (simp add: u_def)
qed

lemma normalizeLng_on_grid:
  assumes g: "on_grid (- 43) v" and b: "\<bar>v\<bar> \<le> 840"
  shows "normalizeLng v = normalizeLng_exact v"
proof -
  have gn: "on_grid (- 43) (numeral n)" for n by (rule on_grid_numeral) simp
  define z where "z = js_mod (v + 180) 360"
  define y where "y = js_mod (z + 360) 360"
  have g1: "on_grid (- 43) (v + 180)" using g gn by (rule on_grid_add)
  have "\<bar>v + 180\<bar> < 2 powi (- 43 + 53)" using b by simp
  with g1 have A: "round53 (v + 180) = v + 180" by (rule round53_exact)
  have gz: "on_grid (- 43) z" unfolding z_def using g1 by (rule js_mod_360_grid) simp
  have zb: "- 360 < z" "z < 360" using js_mod_360_bounds[of "v + 180"] by (simp_all add: z_def)
  have g2: "on_grid (- 43) (z + 360)" using gz gn by (rule on_grid_add)
  have "\<bar>z + 360\<bar> < 2 powi (- 43 + 53)" using zb by simp
  with g2 have B: "round53 (z + 360) = z + 360" by (rule round53_exact)
  have gy: "on_grid (- 43) y" unfolding y_def using g2 by (rule js_mod_360_grid) simp
  have yb: "- 360 < y" "y < 360" using js_mod_360_bounds[of "z + 360"] by (simp_all add: y_def)
  have g3: "on_grid (- 43) (y - 180)" using gy gn by (rule on_grid_diff)
  have "\<bar>y - 180\<bar> < 2 powi (- 43 + 53)" using yb by simp
  with g3 have C: "round53 (y - 180) = y - 180" by (rule round53_exact)
  show ?thesis
    using A B C
    by (simp add: normalizeLng_def normalizeLng_exact_def js_add_def js_sub_def Let_def
        z_def y_def)
qed

section \<open>Merging two segments by marker id\<close>

lemma map_set_fst:
  "map fst (map_set k v es) = (if k \<in> set (map fst es) then map fst es else map fst es @ [k])"
proof (induction es)
  case Nil
  show ?case by simp
next
  case (Cons e es)
  obtain k' v' where e: "e = (k', v')" by (cases e)
  show ?case
  proof (cases "k' = k")
    case True
    then show ?thesis by (simp add: e)
  next
    case False
    then show ?thesis using Cons.IH by (simp add: e)
  qed
qed

lemma map_set_distinct: "distinct (map fst es) \<Longrightarrow> distinct (map fst (map_set k v es))"
  by (simp only: map_set_fst split: if_splits) simp

lemma map_set_lookup: "map_of (map_set k v es) = (map_of es)(k \<mapsto> v)"
  by (induction es) (auto simp: fun_eq_iff)

lemma map_set_keyed: "keyed es \<Longrightarrow> keyed (map_set (marker_id v) v es)"
  unfolding keyed_def by (induction es) auto

lemma merge_into_keyed: "keyed acc \<Longrightarrow> keyed (merge_into acc ms)"
  unfolding merge_into_def
  by (induction ms arbitrary: acc) (simp_all add: map_set_keyed)

lemma merge_into_distinct:
  "distinct (map fst acc) \<Longrightarrow> distinct (map fst (merge_into acc ms))"
  unfolding merge_into_def
  by (induction ms arbitrary: acc) (simp_all add: map_set_distinct)

lemma find_snoc:
  "find P (xs @ [a]) = (case find P xs of Some x \<Rightarrow> Some x | None \<Rightarrow> if P a then Some a else None)"
  by (induction xs) simp_all

lemma merge_into_lookup:
  "map_of (merge_into acc ms) k =
     (case find (\<lambda>m. marker_id m = k) (rev ms) of Some m \<Rightarrow> Some m | None \<Rightarrow> map_of acc k)"
  unfolding merge_into_def
proof (induction ms arbitrary: acc)
  case Nil
  then show ?case by simp
next
  case (Cons a ms)
  show ?case
    by (simp add: Cons.IH map_set_lookup find_snoc split: option.splits)
qed

lemma keyed_map_fst: "keyed es \<Longrightarrow> map marker_id (map snd es) = map fst es"
  unfolding keyed_def by (induction es) auto

lemma keyed_find: "keyed es \<Longrightarrow> find (\<lambda>m. marker_id m = k) (map snd es) = map_of es k"
  unfolding keyed_def by (induction es) auto

lemma mergedById_merge: "mergedById ms = merge_into [] ms"
  by (simp add: mergedById_def merge_into_def)

lemma merged_distinct: "distinct (map marker_id (map_values (mergedById ms)))"
proof -
  have k: "keyed (mergedById ms)" unfolding mergedById_merge
    by (rule merge_into_keyed) (simp add: keyed_def)
  have "distinct (map fst (mergedById ms))" unfolding mergedById_merge
    by (rule merge_into_distinct) simp
  then show ?thesis unfolding map_values_def keyed_map_fst[OF k] .
qed

lemma merged_last_wins:
  "find (\<lambda>m. marker_id m = k) (map_values (mergedById ms)) = find (\<lambda>m. marker_id m = k) (rev ms)"
proof -
  have k: "keyed (mergedById ms)" unfolding mergedById_merge
    by (rule merge_into_keyed) (simp add: keyed_def)
  have "find (\<lambda>m. marker_id m = k) (map_values (mergedById ms)) = map_of (mergedById ms) k"
    unfolding map_values_def using k by (rule keyed_find)
  also have "\<dots> = find (\<lambda>m. marker_id m = k) (rev ms)"
    unfolding mergedById_merge by (simp add: merge_into_lookup split: option.splits)
  finally show ?thesis .
qed

section \<open>Properties of the marker query coordinator\<close>

lemma load_settled_stale:
  "seq \<noteq> markerQuerySeqRef s \<Longrightarrow> load_settled seq r s = s"
  by (cases r) (simp_all add: load_finally_def)

lemma load_settled_seq [simp]:
  "markerQuerySeqRef (load_settled seq r s) = markerQuerySeqRef s"
  by (cases r) (simp_all add: load_finally_def)

lemma load_settled_current_markers:
  "markers (load_settled (markerQuerySeqRef s) (Fulfilled p) s) = mergedMarkers p"
  by (simp add: load_finally_def)

lemma load_dispatch:
  assumes "categories \<noteq> []"
  shows "loadMarkersInViewport bounds categories s =
           (Awaiting (markerQuerySeqRef s + 1) (viewport_segments bounds categories),
            s\<lparr>markerQuerySeqRef := markerQuerySeqRef s + 1,
              loading := (\<not> hasLoadedMarkersRef s \<or> loading s)\<rparr>)"
  using assms by (cases "hasLoadedMarkersRef s") (simp_all add: loadMarkersInViewport_def Let_def)

text \<open>Claim C5. For every bounds value, a call of \<^verbatim>\<open>loadMarkersInViewport\<close> with an
  empty category list returns at once, with the marker list empty and the error cleared;
  it starts no request and leaves the sequence counter as it was; the first-load flag is
  set, and loading is switched off when the flag was not set before.\<close>

theorem empty_categories_fast_path:
  "loadMarkersInViewport bounds [] s =
     (Returned,
      s\<lparr>markers := [], error := [], hasLoadedMarkersRef := True,
        loading := (hasLoadedMarkersRef s \<and> loading s)\<rparr>)
   \<and> load_effects (fst (loadMarkersInViewport bounds [] s)) = []
   \<and> markerQuerySeqRef (snd (loadMarkersInViewport bounds [] s)) = markerQuerySeqRef s"
  by (cases "hasLoadedMarkersRef s") (simp_all add: loadMarkersInViewport_def)

lemma load_settled_current:
  "load_settled (markerQuerySeqRef w) (Fulfilled p) w =
     w\<lparr>markers := mergedMarkers p, error := [], hasLoadedMarkersRef := True,
       loading := (hasLoadedMarkersRef w \<and> loading w)\<rparr>"
  by (cases "hasLoadedMarkersRef w") (simp_all add: load_finally_def)

lemma loadMarkersInViewport_seq_mono:
  "markerQuerySeqRef s \<le> markerQuerySeqRef (snd (loadMarkersInViewport bounds categories s))"
  by (simp add: loadMarkersInViewport_def Let_def)

text \<open>The \<^verbatim>\<open>moveend\<close> handler, the restoring of the stored camera, the native location
  request and the commit of a saved draft leave the counter as it is.\<close>

lemma seq_handle_moveend:
  "markerQuerySeqRef (handle_moveend msg s) = markerQuerySeqRef s"
proof -
  have a: "\<And>la lg zm s. markerQuerySeqRef (moveend_viewport la lg zm s) = markerQuerySeqRef s"
    by (rule moveend_viewport.induct) simp_all
  have b: "\<And>so no we ea s. markerQuerySeqRef (moveend_bounds so no we ea s) = markerQuerySeqRef s"
    by (rule moveend_bounds.induct) simp_all
  show ?thesis by (simp add: handle_moveend_def a b)
qed

lemma seq_restore_viewport:
  "markerQuerySeqRef (restore_viewport v s) = markerQuerySeqRef s"
  by (simp add: restore_viewport_def split: option.splits)

lemma seq_native:
  "markerQuerySeqRef (snd (requestNativeCurrentLocation os present s)) = markerQuerySeqRef s"
  by (simp add: requestNativeCurrentLocation_def)

lemma seq_saveDraft_commit:
  "markerQuerySeqRef (snd (saveDraft_commit created s)) = markerQuerySeqRef s"
  by (simp add: saveDraft_commit_def Let_def resetDraftState_def showNotice_def)

text \<open>Claim C1. Take any two calls with non-empty category lists, the second made in any
  state \<open>u\<close> reached after the first (the counter never decreases, so it is at least the
  one the first call left). The second call captures a larger sequence number than the
  first. In every state \<open>t\<close> reached after the second call, a response for the first call,
  fulfilled or rejected, leaves the whole state as it is, whether it arrives before or
  after the response for the second call. While the counter is still the one the second
  call left, a fulfilled response for the second call is applied: the marker list becomes
  the merged markers and the error is cleared. In general, a response of either kind whose
  captured number differs from the counter of the state \<open>w\<close> in which it arrives changes
  nothing, and a fulfilled response whose captured number is the counter is applied.\<close>

theorem stale_response_discarded:
  assumes "categories1 \<noteq> []" and "categories2 \<noteq> []"
    and "loadMarkersInViewport bounds1 categories1 s0 = (call1, s1)"
    and "markerQuerySeqRef s1 \<le> markerQuerySeqRef u"
    and "loadMarkersInViewport bounds2 categories2 u = (call2, s2)"
    and "markerQuerySeqRef s2 \<le> markerQuerySeqRef t"
  shows "call1 = Awaiting (markerQuerySeqRef s0 + 1) (viewport_segments bounds1 categories1)
       \<and> call2 = Awaiting (markerQuerySeqRef u + 1) (viewport_segments bounds2 categories2)
       \<and> markerQuerySeqRef s0 + 1 < markerQuerySeqRef u + 1
       \<and> load_settled (markerQuerySeqRef s0 + 1) r1 t = t
       \<and> load_settled (markerQuerySeqRef s0 + 1) r1
            (load_settled (markerQuerySeqRef u + 1) r2 t)
          = load_settled (markerQuerySeqRef u + 1) r2 t
       \<and> (markerQuerySeqRef t = markerQuerySeqRef s2 \<longrightarrow>
            load_settled (markerQuerySeqRef u + 1) (Fulfilled p2) t =
              t\<lparr>markers := mergedMarkers p2, error := [], hasLoadedMarkersRef := True,
                loading := (hasLoadedMarkersRef t \<and> loading t)\<rparr>)
       \<and> (seq \<noteq> markerQuerySeqRef w \<longrightarrow> load_settled seq r w = w)
       \<and> load_settled (markerQuerySeqRef w) (Fulfilled p) w =
            w\<lparr>markers := mergedMarkers p, error := [], hasLoadedMarkersRef := True,
              loading := (hasLoadedMarkersRef w \<and> loading w)\<rparr>"
proof -
  from assms(1,3) have c1: "call1 = Awaiting (markerQuerySeqRef s0 + 1) (viewport_segments bounds1 categories1)"
    and q1: "markerQuerySeqRef s1 = markerQuerySeqRef s0 + 1"
    by (auto simp: load_dispatch)
  from assms(2,5) have c2: "call2 = Awaiting (markerQuerySeqRef u + 1) (viewport_segments bounds2 categories2)"
    and q2: "markerQuerySeqRef s2 = markerQuerySeqRef u + 1"
    by (auto simp: load_dispatch)
  have lt: "markerQuerySeqRef s0 + 1 < markerQuerySeqRef u + 1"
    using q1 assms(4) by simp
  have old: "markerQuerySeqRef s0 + 1 \<noteq> markerQuerySeqRef t"
    using lt q2 assms(6) by simp
  have st1: "load_settled (markerQuerySeqRef s0 + 1) r1 t = t"
    using old by (rule load_settled_stale)
  have st2: "load_settled (markerQuerySeqRef s0 + 1) r1
            (load_settled (markerQuerySeqRef u + 1) r2 t)
          = load_settled (markerQuerySeqRef u + 1) r2 t"
  proof (rule load_settled_stale)
    show "markerQuerySeqRef s0 + 1
        \<noteq> markerQuerySeqRef (load_settled (markerQuerySeqRef u + 1) r2 t)"
      unfolding load_settled_seq by (rule old)
  qed
  have ap: "markerQuerySeqRef t = markerQuerySeqRef s2 \<longrightarrow>
            load_settled (markerQuerySeqRef u + 1) (Fulfilled p2) t =
              t\<lparr>markers := mergedMarkers p2, error := [], hasLoadedMarkersRef := True,
                loading := (hasLoadedMarkersRef t \<and> loading t)\<rparr>"
  proof
    assume "markerQuerySeqRef t = markerQuerySeqRef s2"
    then have "markerQuerySeqRef u + 1 = markerQuerySeqRef t" using q2 by simp
    then show "load_settled (markerQuerySeqRef u + 1) (Fulfilled p2) t =
              t\<lparr>markers := mergedMarkers p2, error := [], hasLoadedMarkersRef := True,
                loading := (hasLoadedMarkersRef t \<and> loading t)\<rparr>"
      by (simp only: load_settled_current)
  qed
  have gen: "seq \<noteq> markerQuerySeqRef w \<longrightarrow> load_settled seq r w = w"
    using load_settled_stale[of seq w r] by blast
  note cur = load_settled_current[of w p]
  from c1 c2 lt st1 st2 ap gen cur show ?thesis by (intro conjI)
qed

text \<open>Three calls capture 5, 6 and 7. With the counter at 7, the response for 5, two
  calls old, and the response for 6 change nothing, and after the response for 7 the
  late response for 5 leaves the markers of the response for 7 and no error.\<close>

theorem stale_response_discarded_witness:
  "[friendly_clinic] \<noteq> [] \<and> [accessible_toilet] \<noteq> []
   \<and> markerQuerySeqRef (snd fifth_load) \<le> markerQuerySeqRef (snd sixth_load)
   \<and> 6 \<noteq> markerQuerySeqRef (snd seventh_load)
   \<and> fst fifth_load = Awaiting 5 (viewport_segments example_bounds [friendly_clinic])
   \<and> fst sixth_load = Awaiting 6 (viewport_segments example_bounds [accessible_toilet])
   \<and> fst seventh_load = Awaiting 7 (viewport_segments example_bounds [friendly_clinic])
   \<and> load_settled 5 (Fulfilled (OneSegment [normalized_minimal 7 39 116])) (snd seventh_load)
       = snd seventh_load
   \<and> load_settled 6 (Rejected (NonError None)) (snd seventh_load) = snd seventh_load
   \<and> markers
        (load_settled 5 (Fulfilled (OneSegment [normalized_minimal 7 39 116]))
          (load_settled 7 (Fulfilled (OneSegment [normalized_minimal 8 39 116]))
            (snd seventh_load)))
       = [normalized_minimal 8 39 116]
   \<and> error
        (load_settled 5 (Fulfilled (OneSegment [normalized_minimal 7 39 116]))
          (load_settled 7 (Fulfilled (OneSegment [normalized_minimal 8 39 116]))
            (snd seventh_load)))
       = []"
proof -
  define p8 where "p8 = OneSegment [normalized_minimal 8 39 116]"
  define p7 where "p7 = OneSegment [normalized_minimal 7 39 116]"
  have q: "markerQuerySeqRef screen_after_four_loads = 4"
    by (simp add: screen_after_four_loads_def)
  have a1: "loadMarkersInViewport example_bounds [friendly_clinic] screen_after_four_loads
      = (fst fifth_load, snd fifth_load)"
    by (simp add: fifth_load_def)
  have a2: "loadMarkersInViewport example_bounds [accessible_toilet] (snd fifth_load)
      = (fst sixth_load, snd sixth_load)"
    by (simp add: sixth_load_def)
  have a3: "loadMarkersInViewport example_bounds [friendly_clinic] (snd sixth_load)
      = (fst seventh_load, snd seventh_load)"
    by (simp add: seventh_load_def)
  have n1: "[friendly_clinic] \<noteq> []" and n2: "[accessible_toilet] \<noteq> []" by simp_all
  have q5: "markerQuerySeqRef (snd fifth_load) = 5"
    using q by (simp add: fifth_load_def load_dispatch)
  have q6: "markerQuerySeqRef (snd sixth_load) = 6"
    using q5 by (simp add: sixth_load_def load_dispatch)
  have q7: "markerQuerySeqRef (snd seventh_load) = 7"
    using q6 by (simp add: seventh_load_def load_dispatch)
  have e5: "markerQuerySeqRef screen_after_four_loads + 1 = 5"
    and e6: "markerQuerySeqRef (snd fifth_load) + 1 = 6"
    and e7: "markerQuerySeqRef (snd sixth_load) + 1 = 7"
    using q q5 q6 by simp_all
  have le: "markerQuerySeqRef (snd fifth_load) \<le> markerQuerySeqRef (snd sixth_load)"
    using q5 q6 by simp
  have h: "6 \<noteq> markerQuerySeqRef (snd seventh_load)" using q7 by simp
  have k: "markerQuerySeqRef (snd seventh_load) = markerQuerySeqRef (snd seventh_load)" ..
  note t = stale_response_discarded [OF n1 n1 a1 le a3 order_refl,
      where ?r1.0 = "Fulfilled p7" and ?r2.0 = "Fulfilled p8" and ?p2.0 = p8
        and seq = 6 and w = "snd seventh_load" and r = "Rejected (NonError None)",
      unfolded e5 e7]
  note u = stale_response_discarded [OF n1 n2 a1 order_refl a2 order_refl,
      where seq = 6 and w = "snd seventh_load", unfolded e5 e6]
  from u have c6: "fst sixth_load = Awaiting 6 (viewport_segments example_bounds [accessible_toilet])"
    by blast
  from t have c5: "fst fifth_load = Awaiting 5 (viewport_segments example_bounds [friendly_clinic])"
    and c7: "fst seventh_load = Awaiting 7 (viewport_segments example_bounds [friendly_clinic])"
    and st: "load_settled 5 (Fulfilled p7) (snd seventh_load) = snd seventh_load"
    and d: "load_settled 5 (Fulfilled p7) (load_settled 7 (Fulfilled p8) (snd seventh_load))
            = load_settled 7 (Fulfilled p8) (snd seventh_load)"
    and ap: "markerQuerySeqRef (snd seventh_load) = markerQuerySeqRef (snd seventh_load) \<longrightarrow>
            load_settled 7 (Fulfilled p8) (snd seventh_load) =
              (snd seventh_load)\<lparr>markers := mergedMarkers p8, error := [],
                hasLoadedMarkersRef := True,
                loading := (hasLoadedMarkersRef (snd seventh_load) \<and> loading (snd seventh_load))\<rparr>"
    and g: "6 \<noteq> markerQuerySeqRef (snd seventh_load) \<longrightarrow>
            load_settled 6 (Rejected (NonError None)) (snd seventh_load) = snd seventh_load"
    by blast+
  from g h have st6: "load_settled 6 (Rejected (NonError None)) (snd seventh_load) = snd seventh_load"
    by blast
  from ap k have ap': "load_settled 7 (Fulfilled p8) (snd seventh_load) =
              (snd seventh_load)\<lparr>markers := mergedMarkers p8, error := [],
                hasLoadedMarkersRef := True,
                loading := (hasLoadedMarkersRef (snd seventh_load) \<and> loading (snd seventh_load))\<rparr>"
    by blast
  have m7: "markers (load_settled 7 (Fulfilled p8) (snd seventh_load)) = [normalized_minimal 8 39 116]"
    by (subst ap') (simp add: p8_def)
  have e7': "error (load_settled 7 (Fulfilled p8) (snd seventh_load)) = []"
    by (subst ap') simp
  have m: "markers (load_settled 5 (Fulfilled p7) (load_settled 7 (Fulfilled p8) (snd seventh_load)))
          = [normalized_minimal 8 39 116]"
    by (simp only: d m7)
  have e: "error (load_settled 5 (Fulfilled p7) (load_settled 7 (Fulfilled p8) (snd seventh_load))) = []"
    by (simp only: d e7')
  from n1 n2 le h c5 c6 c7 st st6 m e show ?thesis
    unfolding p8_def p7_def by (intro conjI)
qed

text \<open>Claim C6. When the request that fails is still the newest one, the error message of
  the thrown value is set (the default text when the value is not an \<^verbatim>\<open>Error\<close>), the
  marker list is unchanged, and nothing else changes but the first-load flag and, on the
  first load, the loading indicator. The message is empty only for an \<^verbatim>\<open>Error\<close>
  whose message is empty.\<close>

theorem failed_load_keeps_markers:
  "load_settled (markerQuerySeqRef s) (Rejected e) s =
           s\<lparr>error := load_error_message e, hasLoadedMarkersRef := True,
             loading := (hasLoadedMarkersRef s \<and> loading s)\<rparr>
       \<and> markers (load_settled (markerQuerySeqRef s) (Rejected e) s) = markers s
       \<and> (error (load_settled (markerQuerySeqRef s) (Rejected e) s) = []
            \<longleftrightarrow> (\<exists>code. e = ErrorObj [] code))"
proof -
  have "load_error_message e = [] \<longleftrightarrow> (\<exists>code. e = ErrorObj [] code)"
    by (cases e) (simp_all add: MSG_LOAD_FAILED_def)
  then show ?thesis
    by (cases "hasLoadedMarkersRef s") (simp_all add: load_finally_def)
qed

section \<open>The native location request and the fallback cooldown\<close>

text \<open>Claim C7. While the in-flight flag is set, \<^verbatim>\<open>requestNativeCurrentLocation\<close>
  returns false, does not call \<^verbatim>\<open>getCurrentPosition\<close> and leaves the state as it is. A
  call that does start the native request sets the flag, so that a second call made before
  the first has settled returns false. However the native request settles (a valid
  payload, an invalid one, a rejection), the flag is cleared, and a call made afterwards
  starts a native request again when the platform, the module and the permission allow
  it.\<close>

theorem native_request_single_flight:
  "(nativeLocateInFlightRef s \<longrightarrow>
      requestNativeCurrentLocation os module_present s = (NativeReturned False, s)
      \<and> native_effects (fst (requestNativeCurrentLocation os module_present s)) = [])
   \<and> (fst (requestNativeCurrentLocation os module_present s') = NativeAwaiting \<longrightarrow>
        nativeLocateInFlightRef (snd (requestNativeCurrentLocation os module_present s'))
        \<and> requestNativeCurrentLocation os module_present
              (snd (requestNativeCurrentLocation os module_present s'))
            = (NativeReturned False, snd (requestNativeCurrentLocation os module_present s')))
   \<and> \<not> nativeLocateInFlightRef (snd (snd (native_settled recenter silent r s'')))
   \<and> (supportsNativeLocation os \<and> module_present
        \<and> locationPermissionGranted (snd (snd (native_settled recenter silent r s''))) \<longrightarrow>
        requestNativeCurrentLocation os module_present (snd (snd (native_settled recenter silent r s'')))
          = (NativeAwaiting,
             (snd (snd (native_settled recenter silent r s'')))\<lparr>nativeLocateInFlightRef := True\<rparr>))"
proof -
  have a: "nativeLocateInFlightRef s \<longrightarrow>
      requestNativeCurrentLocation os module_present s = (NativeReturned False, s)
      \<and> native_effects (fst (requestNativeCurrentLocation os module_present s)) = []"
    by (simp add: requestNativeCurrentLocation_def)
  have b: "fst (requestNativeCurrentLocation os module_present s') = NativeAwaiting \<longrightarrow>
        nativeLocateInFlightRef (snd (requestNativeCurrentLocation os module_present s'))
        \<and> requestNativeCurrentLocation os module_present
              (snd (requestNativeCurrentLocation os module_present s'))
            = (NativeReturned False, snd (requestNativeCurrentLocation os module_present s'))"
    by (simp add: requestNativeCurrentLocation_def)
  have c: "\<not> nativeLocateInFlightRef (snd (snd (native_settled recenter silent r s'')))"
    by (simp add: native_settled_def Let_def split: prod.splits)
  then have d: "supportsNativeLocation os \<and> module_present
        \<and> locationPermissionGranted (snd (snd (native_settled recenter silent r s''))) \<longrightarrow>
        requestNativeCurrentLocation os module_present (snd (snd (native_settled recenter silent r s'')))
          = (NativeAwaiting,
             (snd (snd (native_settled recenter silent r s'')))\<lparr>nativeLocateInFlightRef := True\<rparr>)"
    by (simp add: requestNativeCurrentLocation_def)
  from a b c d show ?thesis by blast
qed

text \<open>A busy screen refuses the call; a fresh screen starts the request and refuses a
  second one; after a rejection the request can start again.\<close>

theorem native_request_single_flight_witness:
  "nativeLocateInFlightRef busy_screen
   \<and> requestNativeCurrentLocation ios True busy_screen = (NativeReturned False, busy_screen)
   \<and> fst (requestNativeCurrentLocation ios True (initial_screen ios)) = NativeAwaiting
   \<and> requestNativeCurrentLocation ios True
        (snd (requestNativeCurrentLocation ios True (initial_screen ios)))
      = (NativeReturned False, snd (requestNativeCurrentLocation ios True (initial_screen ios)))
   \<and> supportsNativeLocation ios
   \<and> locationPermissionGranted (snd (snd (native_settled False True (Rejected (NonError None)) busy_screen)))
   \<and> fst (requestNativeCurrentLocation ios True
            (snd (snd (native_settled False True (Rejected (NonError None)) busy_screen))))
      = NativeAwaiting"
proof -
  have h1: "nativeLocateInFlightRef busy_screen"
    by (simp add: busy_screen_def)
  have h2: "fst (requestNativeCurrentLocation ios True (initial_screen ios)) = NativeAwaiting"
    by (simp add: requestNativeCurrentLocation_def initial_screen_def supportsNativeLocation_def)
  have h3: "supportsNativeLocation ios" by (simp add: supportsNativeLocation_def)
  have h4: "locationPermissionGranted
              (snd (snd (native_settled False True (Rejected (NonError None)) busy_screen)))"
    by (simp add: native_settled_def native_catch_def busy_screen_def initial_screen_def)
  note t = native_request_single_flight [of busy_screen ios True "initial_screen ios"
      False True "Rejected (NonError None)" busy_screen]
  from t h1 h2 h3 h4 show ?thesis by simp
qed

text \<open>Claim C8. With the location permission granted, a \<^verbatim>\<open>geoError\<close> event that comes
  less than 1800 ms after the last fallback attempt changes nothing and calls nothing.
  Otherwise the cooldown timestamp becomes the current time and
  \<^verbatim>\<open>requestNativeCurrentLocation\<close> is called once, with \<^verbatim>\<open>silent\<close> set and
  \<^verbatim>\<open>recenter\<close> not set; that call starts one \<^verbatim>\<open>getCurrentPosition\<close> when the
  platform and the module support it and no native request is in flight, and none
  otherwise.\<close>

theorem geoError_cooldown:
  assumes "locationPermissionGranted s"
  shows "(now1 - nativeFallbackCooldownRef s < 1800 \<longrightarrow>
            handle_geoError os module_present now1 s = (None, s))
       \<and> (1800 \<le> now2 - nativeFallbackCooldownRef s \<longrightarrow>
            handle_geoError os module_present now2 s =
              (Some \<lparr>opt_recenter = False, opt_silent = True,
                     first_part = fst (requestNativeCurrentLocation os module_present
                                         (s\<lparr>nativeFallbackCooldownRef := now2\<rparr>))\<rparr>,
               snd (requestNativeCurrentLocation os module_present
                      (s\<lparr>nativeFallbackCooldownRef := now2\<rparr>)))
            \<and> nativeFallbackCooldownRef (snd (handle_geoError os module_present now2 s)) = now2
            \<and> native_effects (fst (requestNativeCurrentLocation os module_present
                                   (s\<lparr>nativeFallbackCooldownRef := now2\<rparr>)))
                = (if supportsNativeLocation os \<and> module_present \<and> \<not> nativeLocateInFlightRef s
                   then [GetCurrentPosition 8000 60000] else []))"
proof -
  have c: "nativeFallbackCooldownRef (snd (requestNativeCurrentLocation os module_present s')) =
      nativeFallbackCooldownRef s'" for s'
    by (simp add: requestNativeCurrentLocation_def)
  have e: "native_effects (fst (requestNativeCurrentLocation os module_present
                                   (s\<lparr>nativeFallbackCooldownRef := now2\<rparr>)))
                = (if supportsNativeLocation os \<and> module_present \<and> \<not> nativeLocateInFlightRef s
                   then [GetCurrentPosition 8000 60000] else [])"
    using assms by (simp add: requestNativeCurrentLocation_def)
  show ?thesis
    using assms c e by (simp add: handle_geoError_def Let_def case_prod_beta)
qed

text \<open>With the last attempt at 10000 ms, an error at 11799 ms is ignored and one at
  11800 ms starts the native request.\<close>

theorem geoError_cooldown_witness:
  "locationPermissionGranted cooled_screen
   \<and> (11799::int) - nativeFallbackCooldownRef cooled_screen < 1800
   \<and> handle_geoError ios True 11799 cooled_screen = (None, cooled_screen)
   \<and> (1800::int) \<le> 11800 - nativeFallbackCooldownRef cooled_screen
   \<and> handle_geoError ios True 11800 cooled_screen =
        (Some \<lparr>opt_recenter = False, opt_silent = True, first_part = NativeAwaiting\<rparr>,
         cooled_screen\<lparr>nativeFallbackCooldownRef := 11800, nativeLocateInFlightRef := True\<rparr>)"
proof -
  have h0: "locationPermissionGranted cooled_screen"
    by (simp add: cooled_screen_def initial_screen_def)
  have h1: "(11799::int) - nativeFallbackCooldownRef cooled_screen < 1800"
    by (simp add: cooled_screen_def)
  have h2: "(1800::int) \<le> 11800 - nativeFallbackCooldownRef cooled_screen"
    by (simp add: cooled_screen_def)
  have r: "requestNativeCurrentLocation ios True (cooled_screen\<lparr>nativeFallbackCooldownRef := 11800\<rparr>)
      = (NativeAwaiting, cooled_screen\<lparr>nativeFallbackCooldownRef := 11800, nativeLocateInFlightRef := True\<rparr>)"
    by (simp add: requestNativeCurrentLocation_def cooled_screen_def initial_screen_def
        supportsNativeLocation_def)
  note t = geoError_cooldown [OF h0, of 11799 ios True 11800]
  from t h0 h1 h2 r show ?thesis by simp
qed


section \<open>Submitting a draft\<close>

lemma prepend_dedup:
  "hd (c # filter (\<lambda>m. marker_id m \<noteq> marker_id c) ms) = c
   \<and> filter (\<lambda>m. marker_id m = marker_id c) (c # filter (\<lambda>m. marker_id m \<noteq> marker_id c) ms) = [c]
   \<and> filter (\<lambda>m. marker_id m \<noteq> marker_id c) (c # filter (\<lambda>m. marker_id m \<noteq> marker_id c) ms)
       = filter (\<lambda>m. marker_id m \<noteq> marker_id c) ms"
proof -
  have "filter (\<lambda>m. marker_id m = marker_id c) (filter (\<lambda>m. marker_id m \<noteq> marker_id c) ms) = []"
    by (induction ms) simp_all
  moreover have "filter (\<lambda>m. marker_id m \<noteq> marker_id c) (filter (\<lambda>m. marker_id m \<noteq> marker_id c) ms)
      = filter (\<lambda>m. marker_id m \<noteq> marker_id c) ms"
    by simp
  ultimately show ?thesis by simp
qed

lemma saveDraft_commit_markers:
  "markers (snd (saveDraft_commit c s)) = c # filter (\<lambda>m. marker_id m \<noteq> marker_id c) (markers s)"
  by (simp add: saveDraft_commit_def Let_def resetDraftState_def showNotice_def)

text \<open>Claim C10, as amended. When the PATCH or POST is fulfilled with a payload that
  normalises to a marker and no image is attached, the marker is put at the head of the
  list and every marker of the old list with its id is removed. With an image attached,
  nothing changes until the upload has settled, and the upload is requested only then,
  under the id of the returned marker. When the upload is fulfilled, the marker of its
  payload (the created one when that payload does not normalise) is prepended in the same
  way. When the upload is rejected, the list stays as it was, the text of the error is
  shown, and no further request is made: the marker is not rolled back. The list after a
  prepend has the marker at its head, holds exactly one marker with that id, and keeps
  the other markers in their order.\<close>

theorem saveDraft_updates_marker_list:
  "fst (saveDraft_submitted None (Fulfilled (Some created)) s) = SaveFinished
   \<and> markers (snd (snd (saveDraft_submitted None (Fulfilled (Some created)) s)))
       = created # filter (\<lambda>m. marker_id m \<noteq> marker_id created) (markers s)
   \<and> saveDraft_submitted (Some f) (Fulfilled (Some created)) s
       = (SaveAwaitingImage created, [Http (PostMarkerImage (marker_id created) f)], s)
   \<and> markers (snd (saveDraft_image_settled created (Fulfilled None) s))
       = created # filter (\<lambda>m. marker_id m \<noteq> marker_id created) (markers s)
   \<and> markers (snd (saveDraft_image_settled created (Fulfilled (Some withImage)) s))
       = withImage # filter (\<lambda>m. marker_id m \<noteq> marker_id withImage) (markers s)
   \<and> saveDraft_image_settled created (Rejected e) s
       = ([], s\<lparr>notice := save_error_message e, savingDraft := False\<rparr>)
   \<and> hd (created # filter (\<lambda>m. marker_id m \<noteq> marker_id created) (markers s)) = created
   \<and> filter (\<lambda>m. marker_id m = marker_id created)
         (created # filter (\<lambda>m. marker_id m \<noteq> marker_id created) (markers s)) = [created]
   \<and> filter (\<lambda>m. marker_id m \<noteq> marker_id created)
         (created # filter (\<lambda>m. marker_id m \<noteq> marker_id created) (markers s))
       = filter (\<lambda>m. marker_id m \<noteq> marker_id created) (markers s)"
  using prepend_dedup[of created "markers s"]
  by (simp add: saveDraft_commit_markers case_prod_beta saveDraft_catch_def showNotice_def)

text \<open>Claim C10 as stated fails: the POST succeeds, an image is attached, the upload is
  rejected, and the marker list is not updated.\<close>

theorem saveDraft_image_failure_counterexample:
  "saveDraft_submitted (Some example_image) (Fulfilled (Some (normalized_minimal 7 39 116)))
      (initial_screen ios)
     = (SaveAwaitingImage (normalized_minimal 7 39 116),
        [Http (PostMarkerImage 7 example_image)], initial_screen ios)
   \<and> markers (snd (saveDraft_image_settled (normalized_minimal 7 39 116)
                 (Rejected (ErrorObj ''Request failed (500)'' None)) (initial_screen ios))) = []
   \<and> markers (snd (saveDraft_image_settled (normalized_minimal 7 39 116)
                 (Rejected (ErrorObj ''Request failed (500)'' None)) (initial_screen ios)))
      \<noteq> normalized_minimal 7 39 116
          # filter (\<lambda>m. marker_id m \<noteq> marker_id (normalized_minimal 7 39 116))
              (markers (initial_screen ios))"
  by (simp add: saveDraft_catch_def showNotice_def initial_screen_def normalized_minimal_def)

section \<open>The camera state\<close>

lemma clampLat_range: "- 90 \<le> clampLat v \<and> clampLat v \<le> 90"
  by (simp add: clampLat_def)

lemma camera_invariant_restore:
  "parseStoredViewport raw = Some c \<Longrightarrow> camera_invariant c"
  using normalizeLng_range clampLat_range
  by (induction raw rule: parseStoredViewport.induct)
     (auto simp: camera_invariant_def split: number.splits)

lemma camera_invariant_restore_viewport:
  "camera_invariant (mapViewport s) \<Longrightarrow> camera_invariant (mapViewport (restore_viewport raw s))"
  using camera_invariant_restore[of raw]
  by (simp add: restore_viewport_def split: option.splits)

lemma camera_invariant_persisted: "camera_invariant (persisted_viewport s)"
  using normalizeLng_range clampLat_range
  by (simp add: camera_invariant_def persisted_viewport_def)

lemma camera_invariant_initial: "camera_invariant INITIAL_VIEW"
  by code_simp

lemma moveend_longitude:
  "- 180 \<le> longitude (mapViewport (handle_moveend msg s))
   \<and> longitude (mapViewport (handle_moveend msg s)) < 180"
  if "- 180 \<le> longitude (mapViewport s) \<and> longitude (mapViewport s) < 180"
proof -
  have b: "mapViewport (moveend_bounds a b c d s') = mapViewport s'" for a b c d s'
    by (induction a b c d s' rule: moveend_bounds.induct) simp_all
  have "- 180 \<le> longitude (mapViewport (moveend_viewport la lg zm s))
   \<and> longitude (mapViewport (moveend_viewport la lg zm s)) < 180" for la lg zm
    using that normalizeLng_range
    by (induction la lg zm s rule: moveend_viewport.induct) simp_all
  then show ?thesis by (simp add: handle_moveend_def b)
qed

lemma normalizeLng_0: "normalizeLng 0 = 0"
  by code_simp

text \<open>Claim C9. A \<^verbatim>\<open>moveend\<close> event that reports zoom 2 is accepted and stored as it is:
  the camera state then has a zoom outside 3 to 20, while the payload that the persistence
  effect writes from that state is clamped.\<close>

theorem moveend_camera_not_clamped:
  "mapViewport (handle_moveend zoomed_out_message (initial_screen ios))
     = \<lparr>latitude = 0, longitude = 0, zoom = 2\<rparr>
   \<and> \<not> camera_invariant (mapViewport (handle_moveend zoomed_out_message (initial_screen ios)))
   \<and> camera_invariant (persisted_viewport (handle_moveend zoomed_out_message (initial_screen ios)))"
proof -
  have b: "mapViewport (moveend_bounds a b c d s') = mapViewport s'" for a b c d s'
    by (induction a b c d s' rule: moveend_bounds.induct) simp_all
  have v: "mapViewport (handle_moveend zoomed_out_message (initial_screen ios))
     = \<lparr>latitude = 0, longitude = 0, zoom = 2\<rparr>"
    by (simp add: handle_moveend_def b zoomed_out_message_def normalizeLng_0)
  show ?thesis unfolding v using camera_invariant_persisted
    by (simp add: camera_invariant_def)
qed


section \<open>Monotonicity of rounding and the whole-world test\<close>

lemma round_half_even_minus: "round_half_even (- t) = - round_half_even t"
proof (cases "t = of_int \<lfloor>t\<rfloor>")
  case True
  then obtain j :: int where "t = of_int j" ..
  then have "- t = of_int (- j)" by simp
  then show ?thesis using \<open>t = of_int j\<close> by (simp only: round_half_even_of_int)
next
  case False
  define f where "f = \<lfloor>t\<rfloor>"
  have "of_int f \<le> t" unfolding f_def by (rule of_int_floor_le)
  moreover have "of_int f \<noteq> t" using False unfolding f_def by (rule not_sym)
  ultimately have ft1: "of_int f < t" by (rule order.not_eq_order_implies_strict[rotated])
  have ft2: "t < of_int f + 1" unfolding f_def using floor_correct[of t] by simp
  note ft = ft1 ft2
  have fl: "\<lfloor>- t\<rfloor> = - f - 1" using ft by (simp add: floor_eq_iff)
  define d where "d = t - of_int f"
  have e: "- t - of_int (- f - 1) = 1 - d" by (simp add: d_def)
  have par: "even (- f - 1) = odd f" by simp
  have m: "round_half_even (- t) =
      (if 1 - d < 1 / 2 then - f - 1 else if 1 / 2 < 1 - d then - f - 1 + 1
       else if odd f then - f - 1 else - f - 1 + 1)"
    by (simp only: round_half_even_def Let_def fl e par)
  have p: "round_half_even t =
      (if d < 1 / 2 then f else if 1 / 2 < d then f + 1
       else if even f then f else f + 1)"
    by (simp only: round_half_even_def Let_def f_def[symmetric] d_def[symmetric])
  consider (lt) "d < 1 / 2" | (eq) "d = 1 / 2" | (gt) "1 / 2 < d" by linarith
  then show ?thesis
  proof cases
    case lt
    then have "\<not> 1 - d < 1 / 2" "1 / 2 < 1 - d" by simp_all
    then show ?thesis unfolding m p using lt by simp
  next
    case eq
    then show ?thesis unfolding m p by simp
  next
    case gt
    then have "1 - d < 1 / 2" "\<not> d < 1 / 2" by simp_all
    then show ?thesis unfolding m p using gt by simp
  qed
qed

lemma bexp_minus [simp]: "bexp (- x) = bexp x"
  by (simp add: bexp_def)

lemma round53_minus: "round53 (- x) = - round53 x"
  by (simp add: round53_def Let_def round_half_even_minus)

lemma round_half_even_mono:
  assumes "s \<le> t"
  shows "round_half_even s \<le> round_half_even t"
proof (cases "\<lfloor>s\<rfloor> < \<lfloor>t\<rfloor>")
  case True
  have "round_half_even s \<le> \<lfloor>s\<rfloor> + 1" using round_half_even_cases[of s] by auto
  also have "\<dots> \<le> \<lfloor>t\<rfloor>" using True by simp
  also have "\<dots> \<le> round_half_even t" using round_half_even_cases[of t] by auto
  finally show ?thesis .
next
  case False
  moreover have "\<lfloor>s\<rfloor> \<le> \<lfloor>t\<rfloor>" using assms by (rule floor_mono)
  ultimately have eq: "\<lfloor>s\<rfloor> = \<lfloor>t\<rfloor>" by simp
  have "s - of_int \<lfloor>t\<rfloor> \<le> t - of_int \<lfloor>t\<rfloor>" using assms by simp
  then show ?thesis by (auto simp: round_half_even_def Let_def eq)
qed

lemma round53_mono_pos:
  assumes "0 < x" and "x \<le> y"
  shows "round53 x \<le> round53 y"
proof -
  have ypos: "0 < y" using assms by simp
  have x0: "x \<noteq> 0" and y0: "y \<noteq> 0" using assms by simp_all
  have "2 powi bexp x \<le> \<bar>y\<bar>" using bexp_bounds[OF x0] assms by simp
  then have le: "bexp x \<le> bexp y" by (rule bexp_ge)
  show ?thesis
  proof (cases "bexp x = bexp y")
    case True
    define q :: rat where "q = 2 powi (bexp y - 52)"
    have qpos: "0 < q" by (simp add: q_def)
    have "x / q \<le> y / q" using assms(2) qpos by (simp add: divide_right_mono)
    then have "round_half_even (x / q) \<le> round_half_even (y / q)"
      by (rule round_half_even_mono)
    then have "(of_int (round_half_even (x / q)) :: rat) \<le> of_int (round_half_even (y / q))"
      by (simp only: of_int_le_iff)
    then have "of_int (round_half_even (x / q)) * q \<le> of_int (round_half_even (y / q)) * q"
      using qpos by (simp add: mult_right_mono)
    then show ?thesis by (simp add: round53_def Let_def True q_def)
  next
    case False
    with le have "bexp x + 1 \<le> bexp y" by simp
    then have "(2::rat) powi (bexp x + 1) \<le> 2 powi bexp y" by (rule pow2_mono)
    with round53_bounds_pos(2)[OF assms(1)] round53_bounds_pos(1)[OF ypos]
    show ?thesis by linarith
  qed
qed

lemma round53_mono:
  assumes "x \<le> y"
  shows "round53 x \<le> round53 y"
proof (cases "0 < x")
  case True
  then show ?thesis using assms by (rule round53_mono_pos)
next
  case False
  then have x0: "x \<le> 0" by simp
  show ?thesis
  proof (cases "0 \<le> y")
    case True
    have "round53 x \<le> 0" using x0 by (rule round53_nonpos)
    also have "0 \<le> round53 y" using True by (rule round53_nonneg)
    finally show ?thesis .
  next
    case False
    then have "0 < - y" "- y \<le> - x" using assms by simp_all
    then have "round53 (- y) \<le> round53 (- x)" by (rule round53_mono_pos)
    then show ?thesis by (simp add: round53_minus)
  qed
qed

lemma round53_abs: "round53 \<bar>x\<bar> = \<bar>round53 x\<bar>"
proof (cases "0 \<le> x")
  case True
  then show ?thesis using round53_nonneg[of x] by simp
next
  case False
  then have "x \<le> 0" by simp
  then show ?thesis using round53_nonpos[of x] False by (simp add: round53_minus)
qed

lemma MAX_VALUE_pow: "MAX_VALUE = of_int (2 ^ 53 - 1) * 2 powi 971"
  by (simp add: MAX_VALUE_def)

lemma round53_MAX_VALUE: "round53 MAX_VALUE = MAX_VALUE"
proof -
  have "on_grid 971 MAX_VALUE" using MAX_VALUE_pow by (rule on_gridI)
  moreover have "\<bar>MAX_VALUE\<bar> < 2 powi (971 + 53)" by (simp add: MAX_VALUE_def)
  ultimately show ?thesis by (rule round53_exact)
qed

lemma js_sub_number_finite:
  assumes "\<bar>a - b\<bar> \<le> MAX_VALUE"
  shows "js_sub_number a b = Finite (round53 (a - b))"
proof -
  have "round53 \<bar>a - b\<bar> \<le> round53 MAX_VALUE" using assms by (rule round53_mono)
  then have "\<bar>round53 (a - b)\<bar> \<le> MAX_VALUE"
    by (simp only: round53_abs round53_MAX_VALUE)
  then show ?thesis by (simp add: js_sub_number_def to_number_def)
qed

lemma js_sub_number_cases:
  assumes "Number_isFinite (js_sub_number a b)"
  shows "js_sub_number a b = Finite (round53 (a - b))"
proof (cases "\<bar>round53 (a - b)\<bar> \<le> MAX_VALUE")
  case True
  then show ?thesis by (simp add: js_sub_number_def to_number_def)
next
  case False
  then have "\<not> Number_isFinite (js_sub_number a b)"
    by (simp add: js_sub_number_def to_number_def)
  with assms show ?thesis by simp
qed

lemma whole_world_test:
  assumes "359999 / 1000 \<le> \<bar>east - west\<bar>" and "Number_isFinite (js_sub_number east west)"
  shows "Number_isFinite (Math_abs (js_sub_number east west))
       \<and> js_ge (Math_abs (js_sub_number east west)) LNG_SPAN_WHOLE_WORLD"
proof -
  have "round53 (359999 / 1000) \<le> round53 \<bar>east - west\<bar>" using assms(1) by (rule round53_mono)
  then have "LNG_SPAN_WHOLE_WORLD \<le> \<bar>round53 (east - west)\<bar>"
    by (simp only: round53_abs LNG_SPAN_WHOLE_WORLD_def)
  then show ?thesis by (simp add: js_sub_number_cases[OF assms(2)])
qed


section \<open>The rounding error of the longitude wrap\<close>

lemma round_half_even_err: "\<bar>of_int (round_half_even t) - t\<bar> \<le> 1 / 2"
proof -
  have f: "of_int \<lfloor>t\<rfloor> \<le> t" by (rule of_int_floor_le)
  have g: "t < of_int \<lfloor>t\<rfloor> + 1" using floor_correct[of t] by simp
  consider (a) "t - of_int \<lfloor>t\<rfloor> < 1 / 2" | (b) "1 / 2 < t - of_int \<lfloor>t\<rfloor>"
    | (c) "t - of_int \<lfloor>t\<rfloor> = 1 / 2" by linarith
  then show ?thesis
  proof cases
    case a
    then have "round_half_even t = \<lfloor>t\<rfloor>" by (simp add: round_half_even_def Let_def)
    then show ?thesis using a f by simp
  next
    case b
    then have "round_half_even t = \<lfloor>t\<rfloor> + 1" by (simp add: round_half_even_def Let_def)
    then show ?thesis using b g by simp
  next
    case c
    then have "round_half_even t = \<lfloor>t\<rfloor> \<or> round_half_even t = \<lfloor>t\<rfloor> + 1"
      by (simp add: round_half_even_def Let_def)
    then show ?thesis using c by auto
  qed
qed

lemma round53_err: "\<bar>round53 x - x\<bar> \<le> 2 powi (bexp x - 53)"
proof -
  define q :: rat where "q = 2 powi (bexp x - 52)"
  have qpos: "0 < q" by (simp add: q_def)
  have r: "round53 x = of_int (round_half_even (x / q)) * q"
    by (simp add: round53_def Let_def q_def)
  have "round53 x - x = (of_int (round_half_even (x / q)) - x / q) * q"
    using qpos by (simp add: r algebra_simps)
  then have "\<bar>round53 x - x\<bar> = \<bar>of_int (round_half_even (x / q)) - x / q\<bar> * q"
    using qpos by (simp add: abs_mult)
  also have "\<dots> \<le> 1 / 2 * q"
    using round_half_even_err[of "x / q"] qpos by (simp add: mult_right_mono)
  also have "1 / 2 * q = 2 powi (bexp x - 53)"
    using pow2_add[of "bexp x - 53" 1] by (simp add: q_def)
  finally show ?thesis .
qed

lemma round53_err_rel: "\<bar>round53 x - x\<bar> \<le> \<bar>x\<bar> / 2 ^ 53"
proof (cases "x = 0")
  case True
  then show ?thesis by simp
next
  case False
  have "(2::rat) powi (bexp x - 53) = 2 powi bexp x / 2 ^ 53"
    using pow2_diff[of "bexp x" 53] by simp
  also have "\<dots> \<le> \<bar>x\<bar> / 2 ^ 53"
    using bexp_bounds[OF False] by (simp add: divide_right_mono)
  finally show ?thesis using round53_err[of x] by linarith
qed

lemma round53_err_abs:
  assumes "\<bar>x\<bar> < 2 powi n"
  shows "\<bar>round53 x - x\<bar> \<le> 2 powi (n - 54)"
proof (cases "x = 0")
  case True
  then show ?thesis by simp
next
  case False
  then have "bexp x < n" using assms by (rule bexp_less)
  then have "bexp x - 53 \<le> n - 54" by simp
  then have "(2::rat) powi (bexp x - 53) \<le> 2 powi (n - 54)" by (rule pow2_mono)
  then show ?thesis using round53_err[of x] by linarith
qed

lemma round53_m180: "round53 (- 180) = - 180"
  by (rule round53_exact[of 0]) (simp_all add: on_grid_def)

lemma normalizeLng_unclamped:
  "normalizeLng v = round53 (js_mod (round53 (js_mod (round53 (v + 180)) 360 + 360)) 360 - 180)"
proof -
  define z where "z = js_mod (round53 (v + 180)) 360"
  define y where "y = js_mod (round53 (z + 360)) 360"
  have zb: "- 360 < z" "z < 360" using js_mod_360_bounds[of "round53 (v + 180)"]
    by (simp_all add: z_def)
  then have u: "round53 (y - 180) < 180" unfolding y_def by (rule second_wrap_lt_180)
  have "0 \<le> round53 (z + 360)" using zb by (intro round53_nonneg) simp
  then have "0 \<le> y" unfolding y_def by (rule js_mod_360_nonneg(1))
  then have "- 180 \<le> y - 180" by simp
  then have "round53 (- 180) \<le> round53 (y - 180)" by (rule round53_mono)
  then have l: "- 180 \<le> round53 (y - 180)" by (simp only: round53_m180)
  show ?thesis
    using u l by (simp add: normalizeLng_def js_add_def js_sub_def Let_def z_def y_def)
qed

lemma normalizeLng_congruent:
  "\<exists>k::int. \<bar>normalizeLng v - (v - 360 * of_int k)\<bar> \<le> \<bar>v + 180\<bar> / 2 ^ 53 + 1 / 2 ^ 44 + 1 / 2 ^ 46"
proof -
  define A where "A = round53 (v + 180)"
  define j where "j = truncate_rat (A / 360)"
  define z where "z = js_mod A 360"
  define B where "B = round53 (z + 360)"
  define j' where "j' = truncate_rat (B / 360)"
  define y where "y = js_mod B 360"
  define r where "r = round53 (y - 180)"
  have N: "normalizeLng v = r"
    by (simp add: normalizeLng_unclamped r_def y_def B_def z_def A_def)
  have zj: "z = A - 360 * of_int j" by (simp add: z_def j_def js_mod_def)
  have yj: "y = B - 360 * of_int j'" by (simp add: y_def j'_def js_mod_def)
  have zb: "- 360 < z" "z < 360" using js_mod_360_bounds[of A] by (simp_all add: z_def)
  have yb: "- 360 < y" "y < 360" using js_mod_360_bounds[of B] by (simp_all add: y_def)
  have e1: "\<bar>A - (v + 180)\<bar> \<le> \<bar>v + 180\<bar> / 2 ^ 53"
    unfolding A_def by (rule round53_err_rel)
  have "\<bar>z + 360\<bar> < 2 powi 10" using zb by simp
  then have "\<bar>B - (z + 360)\<bar> \<le> 2 powi (10 - 54)" unfolding B_def by (rule round53_err_abs)
  then have e2: "\<bar>B - (z + 360)\<bar> \<le> 1 / 2 ^ 44" by (simp add: power_int_minus field_simps)
  have "0 \<le> B" unfolding B_def using zb by (intro round53_nonneg) simp
  then have "0 \<le> y" unfolding y_def by (rule js_mod_360_nonneg(1))
  then have "\<bar>y - 180\<bar> < 2 powi 8" using yb by simp
  then have "\<bar>r - (y - 180)\<bar> \<le> 2 powi (8 - 54)" unfolding r_def by (rule round53_err_abs)
  then have e3: "\<bar>r - (y - 180)\<bar> \<le> 1 / 2 ^ 46" by (simp add: power_int_minus field_simps)
  have "r - (v - 360 * of_int (j + j' - 1))
      = (A - (v + 180)) + (B - (z + 360)) + (r - (y - 180))"
    by (simp add: zj yj algebra_simps)
  then have "\<bar>r - (v - 360 * of_int (j + j' - 1))\<bar>
      \<le> \<bar>v + 180\<bar> / 2 ^ 53 + 1 / 2 ^ 44 + 1 / 2 ^ 46"
    using e1 e2 e3 by linarith
  then show ?thesis unfolding N by (rule exI)
qed

section \<open>Longitude normalisation and the viewport bounds\<close>

text \<open>Claim C4, as amended. For every finite \<open>v\<close> the result lies in the half-open
  interval from -180 to 180. Applying the function twice gives the same as applying it
  once whenever \<open>v\<close> is at least -180. For every \<open>v\<close>, negative or not, the result is \<open>v\<close>
  minus a whole multiple of 360 up to the rounding of the three additions: the distance
  is at most \<open>\<bar>v + 180\<bar> / 2 ^ 53 + 1 / 2 ^ 44 + 1 / 2 ^ 46\<close>, so the result is never off
  by 360. On the multiples of \<open>2 powi (- 43)\<close> of absolute value at most 840 no addition
  rounds, and the result is exactly \<open>v\<close> minus 360 times the floor of \<open>(v + 180) / 360\<close>.
  In exact arithmetic the formula computes that value for every \<open>v\<close> and is idempotent.\<close>

theorem normalizeLng_range_idem:
  "- 180 \<le> normalizeLng v \<and> normalizeLng v < 180
   \<and> (- 180 \<le> v \<longrightarrow> normalizeLng (normalizeLng v) = normalizeLng v)
   \<and> (\<exists>k::int. \<bar>normalizeLng v - (v - 360 * of_int k)\<bar>
                   \<le> \<bar>v + 180\<bar> / 2 ^ 53 + 1 / 2 ^ 44 + 1 / 2 ^ 46)
   \<and> (on_grid (- 43) v \<and> \<bar>v\<bar> \<le> 840 \<longrightarrow>
        normalizeLng v = v - 360 * of_int \<lfloor>(v + 180) / 360\<rfloor>)
   \<and> normalizeLng_exact v = v - 360 * of_int \<lfloor>(v + 180) / 360\<rfloor>
   \<and> normalizeLng_exact (normalizeLng_exact v) = normalizeLng_exact v"
  using normalizeLng_range[of v] normalizeLng_idem_ge[of v] normalizeLng_on_grid[of v]
    normalizeLng_exact_eq[of v] normalizeLng_exact_idem[of v] normalizeLng_congruent[of v]
  by simp

text \<open>At 190 the result is -170.\<close>

theorem normalizeLng_range_idem_witness:
  "- 180 \<le> (190::rat) \<and> on_grid (- 43) 190 \<and> \<bar>190::rat\<bar> \<le> 840
   \<and> normalizeLng 190 = - 170 \<and> normalizeLng (normalizeLng 190) = normalizeLng 190
   \<and> normalizeLng 190 = 190 - 360 * of_int \<lfloor>((190::rat) + 180) / 360\<rfloor>"
proof -
  have h1: "- 180 \<le> (190::rat)" by simp
  have h2: "on_grid (- 43) 190" by (rule on_grid_numeral) simp
  have h3: "\<bar>190::rat\<bar> \<le> 840" by simp
  have v: "normalizeLng 190 = - 170" by code_simp
  note t = normalizeLng_range_idem [of 190]
  from t h1 h2 h3 have i: "normalizeLng (normalizeLng 190) = normalizeLng 190"
    and e: "normalizeLng 190 = 190 - 360 * of_int \<lfloor>((190::rat) + 180) / 360\<rfloor>"
    by blast+
  from h1 h2 h3 v i e show ?thesis by (intro conjI)
qed

text \<open>Claim C4 as stated fails in two ways. The double \<open>- 340 + 1 / 2 ^ 44\<close> is mapped to
  \<open>20 + 1 / 2 ^ 44\<close>, and that one to 20, because the sum \<open>200 + 1 / 2 ^ 44 + 360\<close> is
  rounded to 560: the function is not idempotent. The double nearest to -200.1 is not
  mapped to its exact wrap, which is that double plus 360 and is a double itself, but to
  the double \<open>1 / 2 ^ 45\<close> below it, because the sum of -20.1 and 360 is rounded: the
  wrap is correct only up to rounding.\<close>

theorem normalizeLng_counterexample:
  "round53 (- 340 + 1 / 2 ^ 44) = - 340 + 1 / 2 ^ 44
   \<and> normalizeLng (- 340 + 1 / 2 ^ 44) = 20 + 1 / 2 ^ 44
   \<and> normalizeLng (20 + 1 / 2 ^ 44) = 20
   \<and> normalizeLng (normalizeLng (- 340 + 1 / 2 ^ 44)) \<noteq> normalizeLng (- 340 + 1 / 2 ^ 44)
   \<and> round53 (- (2001 / 10)) = - (7040392854975283 / 2 ^ 45)
   \<and> round53 (- (7040392854975283 / 2 ^ 45) + 360) = - (7040392854975283 / 2 ^ 45) + 360
   \<and> normalizeLng_exact (- (7040392854975283 / 2 ^ 45)) = - (7040392854975283 / 2 ^ 45) + 360
   \<and> normalizeLng (- (7040392854975283 / 2 ^ 45))
        = - (7040392854975283 / 2 ^ 45) + 360 - 1 / 2 ^ 45
   \<and> normalizeLng (- (7040392854975283 / 2 ^ 45)) \<noteq> - (7040392854975283 / 2 ^ 45) + 360"
proof -
  have a: "round53 (- 340 + 1 / 2 ^ 44) = - 340 + 1 / 2 ^ 44" by code_simp
  have b: "normalizeLng (- 340 + 1 / 2 ^ 44) = 20 + 1 / 2 ^ 44" by code_simp
  have c: "normalizeLng (20 + 1 / 2 ^ 44) = 20" by code_simp
  have d: "normalizeLng (normalizeLng (- 340 + 1 / 2 ^ 44)) \<noteq> normalizeLng (- 340 + 1 / 2 ^ 44)"
    unfolding b c by simp
  have e: "round53 (- (2001 / 10)) = - (7040392854975283 / 2 ^ 45)" by code_simp
  have f: "round53 (- (7040392854975283 / 2 ^ 45) + 360) = - (7040392854975283 / 2 ^ 45) + 360"
    by code_simp
  have g: "normalizeLng_exact (- (7040392854975283 / 2 ^ 45)) = - (7040392854975283 / 2 ^ 45) + 360"
    by code_simp
  have h: "normalizeLng (- (7040392854975283 / 2 ^ 45))
        = - (7040392854975283 / 2 ^ 45) + 360 - 1 / 2 ^ 45"
    by code_simp
  have i: "normalizeLng (- (7040392854975283 / 2 ^ 45)) \<noteq> - (7040392854975283 / 2 ^ 45) + 360"
    unfolding h by simp
  from a b c d e f g h i show ?thesis by (intro conjI)
qed

lemma LNG_SPAN_value: "LNG_SPAN_WHOLE_WORLD = 1583292345950929 / 4398046511104"
  by code_simp

lemma normalizeLng_170: "normalizeLng 170 = 170"
  by code_simp

lemma normalizeLng_m170: "normalizeLng (- 170) = - 170"
  by code_simp

lemma round53_m340: "round53 (- 340) = - 340"
  by code_simp

lemma compute_bounds_170:
  "compute_bounds south north 170 (- 170) =
     \<lparr>minLat = clampLat (min south north), maxLat = clampLat (max south north),
      minLng = 170, maxLng = - 170, wrapsAntimeridian = True, wholeWorld = False\<rparr>"
proof -
  have "\<bar>- 340 :: rat\<bar> \<le> MAX_VALUE" by (simp add: MAX_VALUE_def)
  then have "js_sub_number (- 170) 170 = Finite (- 340)"
    using js_sub_number_finite[of "- 170" 170] by (simp add: round53_m340)
  then show ?thesis
    by (simp add: compute_bounds_def Let_def LNG_SPAN_value normalizeLng_170 normalizeLng_m170)
qed

lemma mapBounds_moveend:
  "mapBounds (handle_moveend
      \<lparr>msg_latitude = la, msg_longitude = lg, msg_zoom = zm, msg_south = Finite south,
       msg_north = Finite north, msg_west = Finite west, msg_east = Finite east\<rparr> s)
   = Some (compute_bounds south north west east)"
  by (simp add: handle_moveend_def)

text \<open>Claim C2, as amended. A \<^verbatim>\<open>moveend\<close> event with finite edges, west 170 and east
  -170 sets bounds that wrap the antimeridian, with minimal longitude 170 and maximal
  longitude -170. On these bounds and a non-empty category list,
  \<^verbatim>\<open>loadMarkersInViewport\<close> awaits exactly two requests, one for the longitudes 170 to
  180 and one for -180 to -170. When both are fulfilled and the call is still the newest,
  the marker list becomes the merge of the two lists: no id occurs twice, and for every id
  the marker kept is the last one with that id in the left list followed by the right
  list.\<close>

theorem antimeridian_split:
  assumes "categories \<noteq> []"
  shows "mapBounds (handle_moveend
            \<lparr>msg_latitude = la, msg_longitude = lg, msg_zoom = zm, msg_south = Finite south,
             msg_north = Finite north, msg_west = Finite 170, msg_east = Finite (- 170)\<rparr> s)
          = Some \<lparr>minLat = clampLat (min south north), maxLat = clampLat (max south north),
                  minLng = 170, maxLng = - 170, wrapsAntimeridian = True, wholeWorld = False\<rparr>
       \<and> fst (loadMarkersInViewport (compute_bounds south north 170 (- 170)) categories s')
          = Awaiting (markerQuerySeqRef s' + 1)
              (AwaitTwo
                \<lparr>q_minLat = clampLat (min south north), q_maxLat = clampLat (max south north),
                 q_minLng = 170, q_maxLng = 180, q_categories = categories\<rparr>
                \<lparr>q_minLat = clampLat (min south north), q_maxLat = clampLat (max south north),
                 q_minLng = - 180, q_maxLng = - 170, q_categories = categories\<rparr>)
       \<and> load_effects (fst (loadMarkersInViewport (compute_bounds south north 170 (- 170))
                                categories s'))
          = [Http (GetViewport
                \<lparr>q_minLat = clampLat (min south north), q_maxLat = clampLat (max south north),
                 q_minLng = 170, q_maxLng = 180, q_categories = categories\<rparr>),
             Http (GetViewport
                \<lparr>q_minLat = clampLat (min south north), q_maxLat = clampLat (max south north),
                 q_minLng = - 180, q_maxLng = - 170, q_categories = categories\<rparr>)]
       \<and> markers (load_settled (markerQuerySeqRef s' + 1)
                    (Fulfilled (TwoSegments leftPayload rightPayload))
                    (snd (loadMarkersInViewport (compute_bounds south north 170 (- 170))
                            categories s')))
          = map_values (mergedById (leftPayload @ rightPayload))
       \<and> distinct (map marker_id (map_values (mergedById (leftPayload @ rightPayload))))
       \<and> (\<forall>k. find (\<lambda>m. marker_id m = k) (map_values (mergedById (leftPayload @ rightPayload)))
                = find (\<lambda>m. marker_id m = k) (rev (leftPayload @ rightPayload)))"
proof -
  have seg: "viewport_segments (compute_bounds south north 170 (- 170)) categories =
      AwaitTwo
        \<lparr>q_minLat = clampLat (min south north), q_maxLat = clampLat (max south north),
         q_minLng = 170, q_maxLng = 180, q_categories = categories\<rparr>
        \<lparr>q_minLat = clampLat (min south north), q_maxLat = clampLat (max south north),
         q_minLng = - 180, q_maxLng = - 170, q_categories = categories\<rparr>"
    by (simp add: compute_bounds_170 viewport_segments_def fetchViewportSegment_def)
  have d: "loadMarkersInViewport (compute_bounds south north 170 (- 170)) categories s' =
      (Awaiting (markerQuerySeqRef s' + 1)
         (viewport_segments (compute_bounds south north 170 (- 170)) categories),
       s'\<lparr>markerQuerySeqRef := markerQuerySeqRef s' + 1,
          loading := (\<not> hasLoadedMarkersRef s' \<or> loading s')\<rparr>)"
    using assms by (rule load_dispatch)
  have m: "markers (load_settled (markerQuerySeqRef s' + 1)
                    (Fulfilled (TwoSegments leftPayload rightPayload))
                    (snd (loadMarkersInViewport (compute_bounds south north 170 (- 170))
                            categories s')))
          = map_values (mergedById (leftPayload @ rightPayload))"
    unfolding d using load_settled_current_markers
      [of "s'\<lparr>markerQuerySeqRef := markerQuerySeqRef s' + 1,
          loading := (\<not> hasLoadedMarkersRef s' \<or> loading s')\<rparr>"
        "TwoSegments leftPayload rightPayload"]
    by simp
  have c1: "mapBounds (handle_moveend
            \<lparr>msg_latitude = la, msg_longitude = lg, msg_zoom = zm, msg_south = Finite south,
             msg_north = Finite north, msg_west = Finite 170, msg_east = Finite (- 170)\<rparr> s)
          = Some \<lparr>minLat = clampLat (min south north), maxLat = clampLat (max south north),
                  minLng = 170, maxLng = - 170, wrapsAntimeridian = True, wholeWorld = False\<rparr>"
    by (simp only: mapBounds_moveend compute_bounds_170)
  have c2: "fst (loadMarkersInViewport (compute_bounds south north 170 (- 170)) categories s')
          = Awaiting (markerQuerySeqRef s' + 1)
              (AwaitTwo
                \<lparr>q_minLat = clampLat (min south north), q_maxLat = clampLat (max south north),
                 q_minLng = 170, q_maxLng = 180, q_categories = categories\<rparr>
                \<lparr>q_minLat = clampLat (min south north), q_maxLat = clampLat (max south north),
                 q_minLng = - 180, q_maxLng = - 170, q_categories = categories\<rparr>)"
    by (simp only: d seg fst_conv)
  have c3: "load_effects (fst (loadMarkersInViewport (compute_bounds south north 170 (- 170))
                                categories s'))
          = [Http (GetViewport
                \<lparr>q_minLat = clampLat (min south north), q_maxLat = clampLat (max south north),
                 q_minLng = 170, q_maxLng = 180, q_categories = categories\<rparr>),
             Http (GetViewport
                \<lparr>q_minLat = clampLat (min south north), q_maxLat = clampLat (max south north),
                 q_minLng = - 180, q_maxLng = - 170, q_categories = categories\<rparr>)]"
    by (simp only: c2 load_effects.simps requests_of.simps)
  have c5: "distinct (map marker_id (map_values (mergedById (leftPayload @ rightPayload))))"
    by (rule merged_distinct)
  have c6: "\<forall>k. find (\<lambda>m. marker_id m = k) (map_values (mergedById (leftPayload @ rightPayload)))
                = find (\<lambda>m. marker_id m = k) (rev (leftPayload @ rightPayload))"
    by (intro allI merged_last_wins)
  from c1 c2 c3 m c5 c6 show ?thesis by (intro conjI)
qed


text \<open>Two segments that share the id 2: the marker of the right segment is kept, at the
  place of the left one.\<close>

theorem antimeridian_split_witness:
  "[friendly_clinic] \<noteq> []
   \<and> mapBounds (handle_moveend
        \<lparr>msg_latitude = Finite 0, msg_longitude = Finite 180, msg_zoom = Finite 5,
         msg_south = Finite (- 10), msg_north = Finite 10, msg_west = Finite 170,
         msg_east = Finite (- 170)\<rparr> (initial_screen ios))
      = Some \<lparr>minLat = - 10, maxLat = 10, minLng = 170, maxLng = - 170,
              wrapsAntimeridian = True, wholeWorld = False\<rparr>
   \<and> load_effects (fst (loadMarkersInViewport (compute_bounds (- 10) 10 170 (- 170))
                            [friendly_clinic] (initial_screen ios)))
      = [Http (GetViewport \<lparr>q_minLat = - 10, q_maxLat = 10, q_minLng = 170, q_maxLng = 180,
                             q_categories = [friendly_clinic]\<rparr>),
         Http (GetViewport \<lparr>q_minLat = - 10, q_maxLat = 10, q_minLng = - 180, q_maxLng = - 170,
                             q_categories = [friendly_clinic]\<rparr>)]
   \<and> markers (load_settled 1 (Fulfilled (TwoSegments [left_a, left_b] [right_b, right_c]))
                (snd (loadMarkersInViewport (compute_bounds (- 10) 10 170 (- 170))
                        [friendly_clinic] (initial_screen ios))))
      = [left_a, right_b, right_c]"
proof -
  have h: "[friendly_clinic] \<noteq> []" by simp
  have c: "clampLat (min (- 10) 10) = - 10" "clampLat (max (- 10) 10) = 10"
    by (simp_all add: clampLat_def)
  have q: "markerQuerySeqRef (initial_screen ios) + 1 = 1"
    by (simp add: initial_screen_def)
  have g: "map_values (mergedById ([left_a, left_b] @ [right_b, right_c]))
      = [left_a, right_b, right_c]"
    by (simp add: map_values_def mergedById_def left_a_def left_b_def right_b_def right_c_def
        normalized_minimal_def)
  note t = antimeridian_split [OF h, of "Finite 0" "Finite 180" "Finite 5" "- 10" 10
      "initial_screen ios" "initial_screen ios" "[left_a, left_b]" "[right_b, right_c]",
      unfolded c q g]
  from t h show ?thesis by blast
qed

text \<open>Claim C2 as stated fails for an empty category list: no request is made on the
  wrapping bounds.\<close>

theorem antimeridian_split_empty_categories:
  "wrapsAntimeridian (compute_bounds (- 10) 10 170 (- 170))
   \<and> \<not> wholeWorld (compute_bounds (- 10) 10 170 (- 170))
   \<and> load_effects (fst (loadMarkersInViewport (compute_bounds (- 10) 10 170 (- 170)) []
                            (initial_screen ios))) = []"
  by (simp add: compute_bounds_170 loadMarkersInViewport_def)

lemma compute_bounds_whole_world:
  assumes "359999 / 1000 \<le> \<bar>east - west\<bar>" and "Number_isFinite (js_sub_number east west)"
  shows "compute_bounds south north west east =
     \<lparr>minLat = clampLat (min south north), maxLat = clampLat (max south north),
      minLng = - 180, maxLng = 180, wrapsAntimeridian = False, wholeWorld = True\<rparr>"
  using whole_world_test[OF assms] by (simp add: compute_bounds_def Let_def)

text \<open>Claim C3, as amended. A \<^verbatim>\<open>moveend\<close> event with finite edges whose difference of
  east and west is at least 359.999 in absolute value, and is a finite double when it is
  computed, sets whole-world bounds with the longitudes -180 and 180, whatever the signs
  of the edges. On these bounds and a non-empty category list, \<^verbatim>\<open>loadMarkersInViewport\<close>
  makes exactly one request, for the longitudes -180 to 180.\<close>

theorem whole_world_single_query:
  assumes "359999 / 1000 \<le> \<bar>east - west\<bar>" and "Number_isFinite (js_sub_number east west)"
    and "categories \<noteq> []"
  shows "mapBounds (handle_moveend
            \<lparr>msg_latitude = la, msg_longitude = lg, msg_zoom = zm, msg_south = Finite south,
             msg_north = Finite north, msg_west = Finite west, msg_east = Finite east\<rparr> s)
          = Some \<lparr>minLat = clampLat (min south north), maxLat = clampLat (max south north),
                  minLng = - 180, maxLng = 180, wrapsAntimeridian = False, wholeWorld = True\<rparr>
       \<and> fst (loadMarkersInViewport (compute_bounds south north west east) categories s')
          = Awaiting (markerQuerySeqRef s' + 1)
              (AwaitOne
                \<lparr>q_minLat = clampLat (min south north), q_maxLat = clampLat (max south north),
                 q_minLng = - 180, q_maxLng = 180, q_categories = categories\<rparr>)
       \<and> load_effects (fst (loadMarkersInViewport (compute_bounds south north west east)
                                categories s'))
          = [Http (GetViewport
                \<lparr>q_minLat = clampLat (min south north), q_maxLat = clampLat (max south north),
                 q_minLng = - 180, q_maxLng = 180, q_categories = categories\<rparr>)]"
proof -
  note b = compute_bounds_whole_world[OF assms(1,2), of south north]
  have seg: "viewport_segments (compute_bounds south north west east) categories =
      AwaitOne
        \<lparr>q_minLat = clampLat (min south north), q_maxLat = clampLat (max south north),
         q_minLng = - 180, q_maxLng = 180, q_categories = categories\<rparr>"
    by (simp add: b viewport_segments_def fetchViewportSegment_def)
  have d: "loadMarkersInViewport (compute_bounds south north west east) categories s' =
      (Awaiting (markerQuerySeqRef s' + 1)
         (viewport_segments (compute_bounds south north west east) categories),
       s'\<lparr>markerQuerySeqRef := markerQuerySeqRef s' + 1,
          loading := (\<not> hasLoadedMarkersRef s' \<or> loading s')\<rparr>)"
    using assms(3) by (rule load_dispatch)
  have c1: "mapBounds (handle_moveend
            \<lparr>msg_latitude = la, msg_longitude = lg, msg_zoom = zm, msg_south = Finite south,
             msg_north = Finite north, msg_west = Finite west, msg_east = Finite east\<rparr> s)
          = Some \<lparr>minLat = clampLat (min south north), maxLat = clampLat (max south north),
                  minLng = - 180, maxLng = 180, wrapsAntimeridian = False, wholeWorld = True\<rparr>"
    by (simp only: mapBounds_moveend b)
  have c2: "fst (loadMarkersInViewport (compute_bounds south north west east) categories s')
          = Awaiting (markerQuerySeqRef s' + 1)
              (AwaitOne
                \<lparr>q_minLat = clampLat (min south north), q_maxLat = clampLat (max south north),
                 q_minLng = - 180, q_maxLng = 180, q_categories = categories\<rparr>)"
    by (simp only: d seg fst_conv)
  have c3: "load_effects (fst (loadMarkersInViewport (compute_bounds south north west east)
                                categories s'))
          = [Http (GetViewport
                \<lparr>q_minLat = clampLat (min south north), q_maxLat = clampLat (max south north),
                 q_minLng = - 180, q_maxLng = 180, q_categories = categories\<rparr>)]"
    by (simp only: c2 load_effects.simps requests_of.simps)
  from c1 c2 c3 show ?thesis by (intro conjI)
qed

text \<open>West 180 and east -180.\<close>

theorem whole_world_single_query_witness:
  "(359999 / 1000 :: rat) \<le> \<bar>- 180 - 180\<bar> \<and> Number_isFinite (js_sub_number (- 180) 180)
   \<and> [friendly_clinic] \<noteq> []
   \<and> mapBounds (handle_moveend
        \<lparr>msg_latitude = Finite 0, msg_longitude = Finite 0, msg_zoom = Finite 3,
         msg_south = Finite (- 60), msg_north = Finite 70, msg_west = Finite 180,
         msg_east = Finite (- 180)\<rparr> (initial_screen ios))
      = Some \<lparr>minLat = - 60, maxLat = 70, minLng = - 180, maxLng = 180,
              wrapsAntimeridian = False, wholeWorld = True\<rparr>
   \<and> load_effects (fst (loadMarkersInViewport (compute_bounds (- 60) 70 180 (- 180))
                            [friendly_clinic] (initial_screen ios)))
      = [Http (GetViewport \<lparr>q_minLat = - 60, q_maxLat = 70, q_minLng = - 180, q_maxLng = 180,
                             q_categories = [friendly_clinic]\<rparr>)]"
proof -
  have h1: "(359999 / 1000 :: rat) \<le> \<bar>- 180 - 180\<bar>" by simp
  have "\<bar>- 180 - 180 :: rat\<bar> \<le> MAX_VALUE" by (simp add: MAX_VALUE_def)
  then have h2: "Number_isFinite (js_sub_number (- 180) 180)"
    by (simp only: js_sub_number_finite Number_isFinite.simps)
  have h3: "[friendly_clinic] \<noteq> []" by simp
  have c: "clampLat (min (- 60) 70) = - 60" "clampLat (max (- 60) 70) = 70"
    by (simp_all add: clampLat_def)
  note t = whole_world_single_query [OF h1 h2 h3, of "Finite 0" "Finite 0" "Finite 3" "- 60" 70
      "initial_screen ios" "initial_screen ios", unfolded c]
  from t h1 h2 h3 show ?thesis by blast
qed

lemma js_sub_number_overflow: "js_sub_number (2 ^ 1023) (- (2 ^ 1023)) = PosInfinity"
proof -
  have e: "(2::rat) ^ 1023 - - (2 ^ 1023) = 2 powi 1024" by simp
  have "on_grid (1024 - 52) ((2::rat) powi 1024)" by (rule on_grid_pow2)
  moreover have "\<bar>(2::rat) powi 1024\<bar> < 2 powi (1024 - 52 + 53)" by simp
  ultimately have r: "round53 (2 powi 1024) = 2 powi 1024" by (rule round53_exact)
  have "\<not> \<bar>(2::rat) powi 1024\<bar> \<le> MAX_VALUE" by (simp add: MAX_VALUE_def)
  then show ?thesis unfolding js_sub_number_def e r to_number_def by simp
qed

lemma compute_bounds_not_finite:
  "js_sub_number east west = PosInfinity \<Longrightarrow>
   \<not> wholeWorld (compute_bounds south north west east)"
  by (simp add: compute_bounds_def Let_def)

text \<open>Claim C3 as stated fails twice: for edges whose difference overflows to infinity
  the bounds are not whole-world, and for an empty category list no request is made on
  whole-world bounds.\<close>

theorem whole_world_counterexample:
  "(359999 / 1000 :: rat) \<le> \<bar>2 ^ 1023 - - (2 ^ 1023)\<bar>
   \<and> \<not> wholeWorld (compute_bounds 0 0 (- (2 ^ 1023)) (2 ^ 1023))
   \<and> wholeWorld (compute_bounds 0 0 (- 180) 180)
   \<and> load_effects (fst (loadMarkersInViewport (compute_bounds 0 0 (- 180) 180) []
                            (initial_screen ios))) = []"
proof -
  have a: "(359999 / 1000 :: rat) \<le> \<bar>2 ^ 1023 - - (2 ^ 1023)\<bar>" by simp
  have b: "\<not> wholeWorld (compute_bounds 0 0 (- (2 ^ 1023)) (2 ^ 1023))"
    using js_sub_number_overflow by (rule compute_bounds_not_finite)
  have "\<bar>180 - - 180 :: rat\<bar> \<le> MAX_VALUE" by (simp add: MAX_VALUE_def)
  then have "Number_isFinite (js_sub_number 180 (- 180))"
    by (simp only: js_sub_number_finite Number_isFinite.simps)
  moreover have "(359999 / 1000 :: rat) \<le> \<bar>180 - - 180\<bar>" by simp
  ultimately have c: "wholeWorld (compute_bounds 0 0 (- 180) 180)"
    by (simp add: compute_bounds_whole_world)
  have d: "load_effects (fst (loadMarkersInViewport (compute_bounds 0 0 (- 180) 180) []
                            (initial_screen ios))) = []"
    by (simp add: loadMarkersInViewport_def)
  from a b c d show ?thesis by (intro conjI)
qed

end
